theory Spec2Isabelle
  imports Complex_Main "HOL-Library.Sublist"
begin

section \<open>Strings\<close>

text \<open>
  Python's \<open>str.lower()\<close>, on the ASCII letters: a character outside \<open>A..Z\<close> is kept
  (names and paths with other cased letters are outside the model).
  \<open>a in b\<close> on two strings is \<^const>\<open>sublist\<close> (a contiguous run), \<open>b.endswith(a)\<close> is
  \<^const>\<open>suffix\<close>.
\<close>

definition lower_char :: "char \<Rightarrow> char" where
  "lower_char c =
     (case map_of (zip ''ABCDEFGHIJKLMNOPQRSTUVWXYZ'' ''abcdefghijklmnopqrstuvwxyz'') c of
        Some d \<Rightarrow> d
      | None \<Rightarrow> c)"

definition lower :: "string \<Rightarrow> string" where
  "lower s = map lower_char s"

section \<open>The operating system as seen by \<open>process_manager.py\<close>\<close>

text \<open>\<open>platform.system()\<close>: the three names the module branches on, and any other string.\<close>

datatype platform = Darwin | Windows | Linux | Other_system

text \<open>
  One item of \<open>psutil.process_iter(['pid', 'name', 'exe'])\<close>: \<open>proc.pid\<close> and the prefetched
  \<open>proc.info\<close> dictionary, whose \<open>name\<close> and \<open>exe\<close> may be \<open>None\<close>.
\<close>

record proc =
  pid :: int
  name :: "string option"
  exe :: "string option"

text \<open>
  The two psutil exceptions the module names in its handlers. They are the ones psutil
  documents for \<open>terminate()\<close> and \<open>kill()\<close>; \<open>is_running()\<close> is modelled with the same
  two, since the module guards each of its calls against them.
\<close>

datatype psutil_error = NoSuchProcess | AccessDenied

text \<open>
  \<open>subprocess.run([...], capture_output=True, timeout=3)\<close>: a return code, or an exception
  (the command is missing, or it ran into the timeout).
\<close>

datatype run_result = Returncode int | Run_raised

text \<open>
  The Python exceptions that reach a handler of the module: the read of a local variable
  that was never assigned, the command that \<open>subprocess.Popen\<close> does not find, any other.
\<close>

datatype python_exception = UnboundLocalError | FileNotFoundError | Other_exception

text \<open>
  Every call the module makes on the operating system, with what the call gave back, in
  the order of the calls.
\<close>

datatype event =
    Run_osascript run_result
  | Run_taskkill run_result
  | Is_running proc "psutil_error + bool"
  | Terminate proc "psutil_error option"
  | Kill proc "psutil_error option"
  | Sleep real
  | Open_uri "bool option"
  | Popen "string list" "python_exception option"

text \<open>
  The \<open>warning\<close> and \<open>error\<close> calls of the module, by message; a list of processes is
  the list of \<open>(name, pid)\<close> pairs the message joins. The progress messages written with
  \<open>info\<close> have no model: no result depends on them.
\<close>

datatype log_entry =
    Warning_unknown_platform
  | Warning_applescript_failed
  | Warning_taskkill_failed
  | Warning_still_running "(string option \<times> int) list"
  | Error_cannot_terminate "(string option \<times> int) list"
  | Error_close_manually
  | Error_while_closing python_exception
  | Warning_uri_failed
  | Error_no_executable
  | Warning_tip_use_uri
  | Error_linux_not_found
  | Error_not_installed
  | Error_starting python_exception

text \<open>
  The state a call runs in: \<open>clock\<close> is what \<open>time.time()\<close> reads, \<open>trace\<close> the calls
  made so far, \<open>logged\<close> the messages written so far. The clock moves while a call on
  the operating system runs and while the program sleeps; reading it takes no time.
\<close>

record world =
  clock :: real
  trace :: "event list"
  logged :: "log_entry list"

text \<open>
  The environment of one call. The answers of the operating system may depend on all that
  happened before (the clock and the calls made so far), so each is a function of the
  \<^typ>\<open>world\<close>; \<open>latency\<close> is the time the next call takes. \<open>current_dir\<close> is
  \<open>os.path.dirname(os.path.abspath(sys.executable))\<close>, \<open>None\<close> when computing it raises
  (the source wraps it in a bare \<open>try ... except: pass\<close>).
\<close>

record os_env =
  system :: platform
  getpid :: int
  current_dir :: "string option"
  run_quit :: "world \<Rightarrow> run_result"
  process_iter :: "world \<Rightarrow> proc list"
  is_running :: "world \<Rightarrow> proc \<Rightarrow> psutil_error + bool"
  terminate :: "world \<Rightarrow> proc \<Rightarrow> psutil_error option"
  kill :: "world \<Rightarrow> proc \<Rightarrow> psutil_error option"
  latency :: "world \<Rightarrow> real"

definition record_event :: "event \<Rightarrow> world \<Rightarrow> world" where
  "record_event e w = w\<lparr>trace := trace w @ [e]\<rparr>"

text \<open>
  A call of \<open>close_antigravity\<close> on the operating system: it takes the time the
  environment says, never less than none, and is written to the trace with its result.
  \<open>time.sleep(d)\<close> is such a call that takes \<open>d\<close> more.
\<close>

definition elapse :: "os_env \<Rightarrow> world \<Rightarrow> world" where
  "elapse env w = w\<lparr>clock := clock w + max 0 (latency env w)\<rparr>"

definition os_call :: "os_env \<Rightarrow> event \<Rightarrow> world \<Rightarrow> world" where
  "os_call env e w = record_event e (elapse env w)"

definition sleep :: "os_env \<Rightarrow> real \<Rightarrow> world \<Rightarrow> world" where
  "sleep env d w = os_call env (Sleep d) (w\<lparr>clock := clock w + d\<rparr>)"

definition write_log :: "log_entry \<Rightarrow> world \<Rightarrow> world" where
  "write_log m w = w\<lparr>logged := logged w @ [m]\<rparr>"

section \<open>\<open>is_process_running\<close>\<close>

definition process_name_lower :: "proc \<Rightarrow> string" where
  "process_name_lower p = (case name p of None \<Rightarrow> [] | Some n \<Rightarrow> if n = [] then [] else lower n)"

definition exe_path :: "proc \<Rightarrow> string" where
  "exe_path p = (case exe p of None \<Rightarrow> [] | Some e \<Rightarrow> if e = [] then [] else lower e)"

text \<open>The test of \<open>is_process_running\<close>, lines 29 to 43.\<close>

definition is_antigravity_running :: "platform \<Rightarrow> proc \<Rightarrow> bool" where
  "is_antigravity_running sys p =
     (if sys = Darwin then sublist ''antigravity.app'' (exe_path p)
      else if sys = Windows then
        (process_name_lower p \<in> set [''antigravity.exe'', ''antigravity'']
         \<or> sublist ''antigravity'' (exe_path p))
      else
        (process_name_lower p = ''antigravity''
         \<or> sublist ''/antigravity/'' (exe_path p)
         \<or> suffix ''/antigravity'' (exe_path p)))"

fun is_process_running_loop :: "platform \<Rightarrow> proc list \<Rightarrow> bool" where
  "is_process_running_loop sys [] = False"
| "is_process_running_loop sys (p # ps) =
     (if is_antigravity_running sys p then True else is_process_running_loop sys ps)"

definition is_process_running :: "os_env \<Rightarrow> world \<Rightarrow> bool" where
  "is_process_running env w = is_process_running_loop (system env) (process_iter env w)"

section \<open>\<open>close_antigravity\<close>\<close>

subsection \<open>Phase 1: the platform's own request to quit\<close>

text \<open>Lines 67 and 68.\<close>

definition check_platform :: "os_env \<Rightarrow> world \<Rightarrow> world" where
  "check_platform env w =
     (if system env \<notin> set [Darwin, Windows, Linux] then write_log Warning_unknown_platform w else w)"

text \<open>Lines 72 to 105.\<close>

definition graceful_exit :: "os_env \<Rightarrow> world \<Rightarrow> world" where
  "graceful_exit env w =
     (if system env = Darwin then
        (let r = run_quit env w; w' = os_call env (Run_osascript r) w
         in case r of
              Returncode rc \<Rightarrow> if rc = 0 then sleep env 2 w' else w'
            | Run_raised \<Rightarrow> write_log Warning_applescript_failed w')
      else if system env = Windows then
        (let r = run_quit env w; w' = os_call env (Run_taskkill r) w
         in case r of
              Returncode rc \<Rightarrow> if rc = 0 then sleep env 2 w' else w'
            | Run_raised \<Rightarrow> write_log Warning_taskkill_failed w')
      else w)"

subsection \<open>Scanning: the termination set\<close>

text \<open>Lines 123 to 131: the process lives in the caller's own directory.\<close>

definition in_current_dir :: "os_env \<Rightarrow> proc \<Rightarrow> bool" where
  "in_current_dir env p =
     (case current_dir env of
        None \<Rightarrow> False
      | Some d \<Rightarrow> exe_path p \<noteq> [] \<and> sublist (lower d) (exe_path p))"

text \<open>Lines 134 to 154: the test of \<open>close_antigravity\<close>.\<close>

definition is_antigravity :: "platform \<Rightarrow> proc \<Rightarrow> bool" where
  "is_antigravity sys p =
     (if sys = Darwin then sublist ''antigravity.app'' (exe_path p)
      else if sys = Windows then
        (let is_target_name = process_name_lower p \<in> set [''antigravity.exe'', ''antigravity''];
             is_in_path = sublist ''antigravity'' (exe_path p);
             is_manager = sublist ''manager'' (process_name_lower p)
         in is_target_name \<or> (is_in_path \<and> \<not> is_manager))
      else
        (process_name_lower p = ''antigravity''
         \<or> sublist ''/antigravity/'' (exe_path p)
         \<or> suffix ''/antigravity'' (exe_path p)))"

fun scan_targets :: "os_env \<Rightarrow> proc list \<Rightarrow> proc list" where
  "scan_targets env [] = []"
| "scan_targets env (p # ps) =
     (if pid p = getpid env then scan_targets env ps
      else if in_current_dir env p then scan_targets env ps
      else if is_antigravity (system env) p then p # scan_targets env ps
      else scan_targets env ps)"

subsection \<open>Phase 2: the cooperative signal\<close>

text \<open>Lines 171 to 178: both handlers of the loop go on with the next process.\<close>

fun send_terminate :: "os_env \<Rightarrow> proc list \<Rightarrow> world \<Rightarrow> world" where
  "send_terminate env [] w = w"
| "send_terminate env (p # ps) w =
     (let r = is_running env w p; w1 = os_call env (Is_running p r) w
      in if r = Inr True then
           (let s = terminate env w1 p in send_terminate env ps (os_call env (Terminate p s) w1))
         else send_terminate env ps w1)"

subsection \<open>The wait loop\<close>

text \<open>
  Lines 184 to 190, and again 214 to 220: the processes of the list that answer
  \<open>is_running()\<close> with true; one that raises is left out.
\<close>

fun poll_running :: "os_env \<Rightarrow> proc list \<Rightarrow> world \<Rightarrow> proc list \<times> world" where
  "poll_running env [] w = ([], w)"
| "poll_running env (p # ps) w =
     (let r = is_running env w p; w1 = os_call env (Is_running p r) w
      in case poll_running env ps w1 of
           (rest, w2) \<Rightarrow> (if r = Inr True then p # rest else rest, w2))"

lemma os_call_simps:
  "trace (os_call env e w) = trace w @ [e]" "logged (os_call env e w) = logged w"
  "clock w \<le> clock (os_call env e w)"
  by (simp_all add: os_call_def elapse_def record_event_def)

lemma sleep_simps:
  "trace (sleep env d w) = trace w @ [Sleep d]" "logged (sleep env d w) = logged w"
  "clock w + d \<le> clock (sleep env d w)"
  by (simp_all add: sleep_def os_call_def elapse_def record_event_def)

lemma clock_poll_running: "poll_running env ps w = (alive, w') \<Longrightarrow> clock w \<le> clock w'"
proof (induction ps arbitrary: w alive w')
  case Nil
  then show ?case by simp
next
  case (Cons p ps)
  let ?w1 = "os_call env (Is_running p (is_running env w p)) w"
  obtain rest w2 where r: "poll_running env ps ?w1 = (rest, w2)"
    by fastforce
  from Cons.prems r have "w' = w2"
    by (simp add: Let_def)
  with Cons.IH [OF r] os_call_simps(3) [of w env "Is_running p (is_running env w p)"]
  show ?case
    by simp
qed

text \<open>
  How the loop of lines 183 to 196 ends: by its \<open>return True\<close>, or by its condition, with
  \<open>still_running\<close> as the last round left it: \<open>None\<close> is the variable never assigned.
\<close>

datatype loop_result = Return_True world | Loop_exit "proc list option" world

function wait_loop ::
  "os_env \<Rightarrow> real \<Rightarrow> real \<Rightarrow> proc list \<Rightarrow> proc list option \<Rightarrow> world \<Rightarrow> loop_result" where
  "wait_loop env start_time timeout target_processes still_running w =
     (if clock w - start_time < timeout then
        (case poll_running env target_processes w of
           (alive, w1) \<Rightarrow>
             if alive = [] then Return_True w1
             else wait_loop env start_time timeout target_processes (Some alive) (sleep env (1/2) w1))
      else Loop_exit still_running w)"
  by pat_completeness auto
termination
proof (relation "measure (\<lambda>(env, start_time, timeout, ps, sr, w).
    nat \<lceil>(timeout - (clock w - start_time)) * 2\<rceil>)", goal_cases)
  case 1
  show ?case by simp
next
  case (2 env start_time timeout target_processes still_running w alive w1)
  let ?later = "clock (sleep env (1/2) w1)"
  have "clock w \<le> clock w1"
    using 2(2) clock_poll_running [of env target_processes w alive w1] by simp
  with sleep_simps(3) [of w1 "1/2" env] have "clock w + 1/2 \<le> ?later"
    by simp
  then have "(timeout - (?later - start_time)) * 2 \<le> (timeout - (clock w - start_time)) * 2 - 1"
    by simp
  then have "\<lceil>(timeout - (?later - start_time)) * 2\<rceil>
      \<le> \<lceil>(timeout - (clock w - start_time)) * 2 - 1\<rceil>"
    by (rule ceiling_mono)
  moreover have "0 < \<lceil>(timeout - (clock w - start_time)) * 2\<rceil>"
    using 2(1) by simp
  ultimately show ?case
    by simp
qed

declare wait_loop.simps [simp del]



subsection \<open>Phase 3: the forced kill\<close>

text \<open>Lines 205 to 210.\<close>

fun send_kill :: "os_env \<Rightarrow> proc list \<Rightarrow> world \<Rightarrow> world" where
  "send_kill env [] w = w"
| "send_kill env (p # ps) w =
     (let r = is_running env w p; w1 = os_call env (Is_running p r) w
      in if r = Inr True then
           (let s = kill env w1 p in send_kill env ps (os_call env (Kill p s) w1))
         else send_kill env ps w1)"

definition names :: "proc list \<Rightarrow> (string option \<times> int) list" where
  "names ps = map (\<lambda>p. (name p, pid p)) ps"

subsection \<open>The whole operation\<close>

definition close_antigravity :: "os_env \<Rightarrow> real \<Rightarrow> bool \<Rightarrow> world \<Rightarrow> bool \<times> world" where
  "close_antigravity env timeout force_kill w0 =
     (let w1 = check_platform env w0;
          w2 = graceful_exit env w1;
          target_processes = scan_targets env (process_iter env w2)
      in if target_processes = [] then (True, w2)
         else
           (let w3 = send_terminate env target_processes w2;
                start_time = clock w3
            in case wait_loop env start_time timeout target_processes None w3 of
                 Return_True w4 \<Rightarrow> (True, w4)
               | Loop_exit None w4 \<Rightarrow> (False, write_log (Error_while_closing UnboundLocalError) w4)
               | Loop_exit (Some still_running) w4 \<Rightarrow>
                   if still_running \<noteq> [] then
                     (let w5 = write_log (Warning_still_running (names still_running)) w4
                      in if force_kill then
                           (let w6 = send_kill env still_running w5;
                                w7 = sleep env 1 w6
                            in case poll_running env still_running w7 of
                                 (final_check, w8) \<Rightarrow>
                                   if final_check = [] then (True, w8)
                                   else (False, write_log (Error_cannot_terminate (names final_check)) w8))
                         else (False, write_log Error_close_manually w5))
                   else (True, w4)))"

subsection \<open>Reading a trace\<close>

text \<open>
  The processes a stretch of the trace sent the forced kill to, sent the cooperative
  signal to, asked for their liveness, and found alive; and the pauses it made.
\<close>

fun kills_in :: "event list \<Rightarrow> proc list" where
  "kills_in [] = []"
| "kills_in (Kill p r # es) = p # kills_in es"
| "kills_in (e # es) = kills_in es"

fun terminates_in :: "event list \<Rightarrow> proc list" where
  "terminates_in [] = []"
| "terminates_in (Terminate p r # es) = p # terminates_in es"
| "terminates_in (e # es) = terminates_in es"

fun polled_in :: "event list \<Rightarrow> proc list" where
  "polled_in [] = []"
| "polled_in (Is_running p r # es) = p # polled_in es"
| "polled_in (e # es) = polled_in es"

fun alive_in :: "event list \<Rightarrow> proc list" where
  "alive_in [] = []"
| "alive_in (Is_running p r # es) = (if r = Inr True then p # alive_in es else alive_in es)"
| "alive_in (e # es) = alive_in es"

fun sleeps_in :: "event list \<Rightarrow> real list" where
  "sleeps_in [] = []"
| "sleeps_in (Sleep d # es) = d # sleeps_in es"
| "sleeps_in (e # es) = sleeps_in es"

fun uri_attempts_in :: "event list \<Rightarrow> nat" where
  "uri_attempts_in [] = 0"
| "uri_attempts_in (Open_uri r # es) = Suc (uri_attempts_in es)"
| "uri_attempts_in (e # es) = uri_attempts_in es"

section \<open>\<open>start_antigravity\<close>\<close>

text \<open>
  The launcher's environment. \<open>open_uri\<close> and \<open>get_antigravity_executable_path\<close> come
  from the module \<open>utils\<close>, which is taken as given: \<open>open_uri\<close> answers true or false, or
  raises (\<open>None\<close>); the path provider gives no path, or a path and whether
  \<open>path.exists()\<close>. \<open>popen\<close> is \<open>subprocess.Popen\<close>: started (\<open>None\<close>) or the exception
  it raised.
\<close>

record launch_env =
  launch_system :: platform
  open_uri :: "world \<Rightarrow> bool option"
  get_antigravity_executable_path :: "world \<Rightarrow> (string \<times> bool) option"
  popen :: "world \<Rightarrow> string list \<Rightarrow> python_exception option"

text \<open>What the body of a \<open>try\<close> does: it returns a value or raises.\<close>

datatype 'a outcome = Returned 'a | Raised python_exception

definition run_popen :: "launch_env \<Rightarrow> string list \<Rightarrow> world \<Rightarrow> python_exception option \<times> world" where
  "run_popen env args w = (let r = popen env w args in (r, record_event (Popen args r) w))"

text \<open>Lines 262 to 290: the launch by executable path.\<close>

definition launch_executable :: "launch_env \<Rightarrow> world \<Rightarrow> bool outcome \<times> world" where
  "launch_executable env w =
     (if launch_system env = Darwin then
        (case run_popen env [''open'', ''-a'', ''Antigravity''] w of
           (None, w1) \<Rightarrow> (Returned True, w1)
         | (Some e, w1) \<Rightarrow> (Raised e, w1))
      else if launch_system env = Windows then
        (case get_antigravity_executable_path env w of
           Some (path, True) \<Rightarrow>
             (case run_popen env [path] w of
                (None, w1) \<Rightarrow> (Returned True, w1)
              | (Some e, w1) \<Rightarrow> (Raised e, w1))
         | _ \<Rightarrow> (Returned False, write_log Warning_tip_use_uri (write_log Error_no_executable w)))
      else if launch_system env = Linux then
        (case get_antigravity_executable_path env w of
           Some (path, True) \<Rightarrow>
             (case run_popen env [path] w of
                (None, w1) \<Rightarrow> (Returned True, w1)
              | (Some e, w1) \<Rightarrow> (Raised e, w1))
         | _ \<Rightarrow>
             (case run_popen env [''antigravity''] w of
                (None, w1) \<Rightarrow> (Returned True, w1)
              | (Some FileNotFoundError, w1) \<Rightarrow>
                  (Returned False, write_log Error_not_installed (write_log Error_linux_not_found w1))
              | (Some e, w1) \<Rightarrow> (Raised e, w1)))
      else (Returned True, w))"

text \<open>Lines 250 to 290: the body of the \<open>try\<close>.\<close>

definition try_start :: "launch_env \<Rightarrow> bool \<Rightarrow> world \<Rightarrow> bool outcome \<times> world" where
  "try_start env use_uri w =
     (if use_uri then
        (let r = open_uri env w; w1 = record_event (Open_uri r) w
         in case r of
              Some True \<Rightarrow> (Returned True, w1)
            | Some False \<Rightarrow> launch_executable env (write_log Warning_uri_failed w1)
            | None \<Rightarrow> (Raised Other_exception, w1))
      else launch_executable env w)"

function start_antigravity :: "launch_env \<Rightarrow> bool \<Rightarrow> world \<Rightarrow> bool \<times> world" where
  "start_antigravity env use_uri w =
     (case try_start env use_uri w of
        (Returned b, w1) \<Rightarrow> (b, w1)
      | (Raised e, w1) \<Rightarrow>
          (let w2 = write_log (Error_starting e) w1
           in if use_uri then start_antigravity env False (write_log Warning_uri_failed w2)
              else (False, w2)))"
  by pat_completeness auto
termination
  by (relation "measure (\<lambda>(env, use_uri, w). if use_uri then 1 else 0)") auto

declare start_antigravity.simps [simp del]

section \<open>\<open>db_manager.py\<close>\<close>

definition KEYS_TO_BACKUP :: "string list" where
  "KEYS_TO_BACKUP = [''antigravityAuthStatus'', ''jetskiStateSync.agentManagerInitState'']"

text \<open>
  What \<open>json.load\<close> gives: any JSON value; a number is kept as its literal, an object as
  its members in the order of the document. Where the document repeats a key of an
  object, \<open>json.load\<close> keeps the last value: so does the lookup below.
\<close>

datatype json =
    JNull
  | JBool bool
  | JNumber string
  | JString string
  | JArray "json list"
  | JObject "(string \<times> json) list"

text \<open>A file at a backup path: text that \<open>json.load\<close> parses, or any other content.\<close>

datatype backup_file = Json_file json | Other_file

text \<open>
  A database file: the rows of \<open>ItemTable\<close> (key to value), and which of the calls on it
  succeed: \<open>sqlite3.connect\<close>, the \<open>SELECT\<close>, the \<open>INSERT OR REPLACE\<close> and \<open>commit\<close>; a
  call that does not succeed raises \<open>sqlite3.Error\<close>.
\<close>

record database =
  table :: "string \<rightharpoonup> string"
  connect_ok :: bool
  select_ok :: bool
  insert_ok :: bool
  commit_ok :: bool

record disk =
  files :: "string \<rightharpoonup> backup_file"
  dbs :: "string \<rightharpoonup> database"

text \<open>
  The environment of the module: the path provider of \<open>utils\<close> (taken as given),
  \<open>db_path.with_suffix('.vscdb.backup')\<close>, whether \<open>open(path, 'w')\<close> succeeds,
  \<open>datetime.now().isoformat()\<close> and \<open>json.dumps\<close>. The messages the module logs have no
  model here.
\<close>

record db_env =
  get_antigravity_db_paths :: "string list"
  with_suffix_backup :: "string \<Rightarrow> string"
  writable :: "string \<Rightarrow> bool"
  now_isoformat :: string
  json_dumps :: "json \<Rightarrow> string"

text \<open>
  \<open>get_db_connection\<close>, on the database file found at the path: the connection, or
  \<open>None\<close> when \<open>sqlite3.connect\<close> raises. Both callers test \<open>db_path.exists()\<close> first
  (lines 43 and 125), so it is never called on a path without a file, where
  \<open>sqlite3.connect\<close> would create one; the model takes the file that is there.
\<close>

definition get_db_connection :: "database \<Rightarrow> database option" where
  "get_db_connection db = (if connect_ok db then Some db else None)"

text \<open>\<open>data_map[key] = value\<close> on a dictionary that keeps the order of insertion.\<close>

fun dict_set :: "string \<Rightarrow> 'v \<Rightarrow> (string \<times> 'v) list \<Rightarrow> (string \<times> 'v) list" where
  "dict_set k v [] = [(k, v)]"
| "dict_set k v ((k', v') # kvs) =
     (if k' = k then (k, v) # kvs else (k', v') # dict_set k v kvs)"

text \<open>Lines 57 to 64; \<open>None\<close> is \<open>sqlite3.Error\<close>.\<close>

fun read_keys :: "database \<Rightarrow> string list \<Rightarrow> (string \<times> json) list \<Rightarrow> (string \<times> json) list option" where
  "read_keys db [] data_map = Some data_map"
| "read_keys db (key # keys) data_map =
     (if \<not> select_ok db then None
      else case table db key of
             Some v \<Rightarrow> read_keys db keys (dict_set key (JString v) data_map)
           | None \<Rightarrow> read_keys db keys data_map)"

definition backup_account :: "db_env \<Rightarrow> string \<Rightarrow> string \<Rightarrow> disk \<Rightarrow> bool \<times> disk" where
  "backup_account env email backup_file_path d =
     (case get_antigravity_db_paths env of
        [] \<Rightarrow> (False, d)
      | db_path # _ \<Rightarrow>
          (case dbs d db_path of
             None \<Rightarrow> (False, d)
           | Some db \<Rightarrow>
               (case get_db_connection db of
                  None \<Rightarrow> (False, d)
                | Some conn \<Rightarrow>
                    (case read_keys conn KEYS_TO_BACKUP [] of
                       None \<Rightarrow> (False, d)
                     | Some data_map \<Rightarrow>
                         (let data_map1 = dict_set ''account_email'' (JString email) data_map;
                              data_map2 = dict_set ''backup_time'' (JString (now_isoformat env)) data_map1
                          in if writable env backup_file_path then
                               (True, d\<lparr>files := (files d)(backup_file_path \<mapsto> Json_file (JObject data_map2))\<rparr>)
                             else (False, d))))))"

text \<open>
  \<open>key in backup_data\<close> and \<open>backup_data[key]\<close> for a string \<open>key\<close>, on each kind of JSON
  value; \<open>None\<close> is the \<open>TypeError\<close> Python raises.
\<close>

fun json_contains :: "json \<Rightarrow> string \<Rightarrow> bool option" where
  "json_contains (JObject kvs) key = Some (key \<in> set (map fst kvs))"
| "json_contains (JArray xs) key = Some (JString key \<in> set xs)"
| "json_contains (JString s) key = Some (sublist key s)"
| "json_contains _ key = None"

fun json_getitem :: "json \<Rightarrow> string \<Rightarrow> json option" where
  "json_getitem (JObject kvs) key = map_of (rev kvs) key"
| "json_getitem _ key = None"

text \<open>A number, a boolean or \<open>null\<close>: the values on which \<open>key in backup_data\<close> raises.\<close>

definition json_scalar :: "json \<Rightarrow> bool" where
  "json_scalar j = (case j of JNull \<Rightarrow> True | JBool b \<Rightarrow> True | JNumber n \<Rightarrow> True | _ \<Rightarrow> False)"

text \<open>
  Lines 138 to 147, on the rows as the open transaction sees them; \<open>None\<close> is an exception
  (\<open>TypeError\<close>, \<open>KeyError\<close> or \<open>sqlite3.Error\<close>), which both handlers turn into \<open>False\<close>.
\<close>

fun restore_keys :: "db_env \<Rightarrow> database \<Rightarrow> json \<Rightarrow> string list \<Rightarrow> (string \<rightharpoonup> string) \<Rightarrow> (string \<rightharpoonup> string) option" where
  "restore_keys env db backup_data [] rows = Some rows"
| "restore_keys env db backup_data (key # keys) rows =
     (case json_contains backup_data key of
        None \<Rightarrow> None
      | Some False \<Rightarrow> restore_keys env db backup_data keys rows
      | Some True \<Rightarrow>
          (case json_getitem backup_data key of
             None \<Rightarrow> None
           | Some v \<Rightarrow>
               (let value_str = (case v of JString s \<Rightarrow> s | _ \<Rightarrow> json_dumps env v)
                in if insert_ok db then restore_keys env db backup_data keys (rows(key \<mapsto> value_str))
                   else None)))"

text \<open>
  \<open>_restore_single_db\<close>. The rows reach the file at \<open>commit\<close>; when an exception ends the
  \<open>try\<close> before, \<open>conn.close()\<close> drops what the transaction wrote.
\<close>

definition restore_single_db :: "db_env \<Rightarrow> string \<Rightarrow> json \<Rightarrow> disk \<Rightarrow> bool \<times> disk" where
  "restore_single_db env db_path backup_data d =
     (case dbs d db_path of
        None \<Rightarrow> (False, d)
      | Some db \<Rightarrow>
          (case get_db_connection db of
             None \<Rightarrow> (False, d)
           | Some conn \<Rightarrow>
               (case restore_keys env conn backup_data KEYS_TO_BACKUP (table conn) of
                  None \<Rightarrow> (False, d)
                | Some rows \<Rightarrow>
                    if commit_ok conn then
                      (True, d\<lparr>dbs := (dbs d)(db_path \<mapsto> conn\<lparr>table := rows\<rparr>)\<rparr>)
                    else (False, d))))"

text \<open>Lines 110 to 119, with \<open>success_count\<close> and the disk as the state of the loop.\<close>

fun restore_loop :: "db_env \<Rightarrow> json \<Rightarrow> string list \<Rightarrow> nat \<Rightarrow> disk \<Rightarrow> nat \<times> disk" where
  "restore_loop env backup_data [] success_count d = (success_count, d)"
| "restore_loop env backup_data (db_path # db_paths) success_count d =
     (case restore_single_db env db_path backup_data d of
        (ok1, d1) \<Rightarrow>
          (let count1 = (if ok1 then success_count + 1 else success_count);
               backup_db_path = with_suffix_backup env db_path
           in if dbs d1 backup_db_path \<noteq> None then
                (case restore_single_db env backup_db_path backup_data d1 of
                   (ok2, d2) \<Rightarrow>
                     restore_loop env backup_data db_paths (if ok2 then count1 + 1 else count1) d2)
              else restore_loop env backup_data db_paths count1 d1))"

definition restore_account :: "db_env \<Rightarrow> string \<Rightarrow> disk \<Rightarrow> bool \<times> disk" where
  "restore_account env backup_file_path d =
     (case files d backup_file_path of
        None \<Rightarrow> (False, d)
      | Some Other_file \<Rightarrow> (False, d)
      | Some (Json_file backup_data) \<Rightarrow>
          if get_antigravity_db_paths env = [] then (False, d)
          else case restore_loop env backup_data (get_antigravity_db_paths env) 0 d of
                 (success_count, d1) \<Rightarrow> (0 < success_count, d1))"

subsection \<open>What the specification calls a match on Linux, a decoy, and a path under a directory\<close>

text \<open>
  The rule of the specification for Platform C, in its words: the lowercase name is exactly
  the application's name, or the lowercase executable path holds the name as a path
  segment, or ends with it.
\<close>

definition platform_c_match :: "proc \<Rightarrow> bool" where
  "platform_c_match p =
     (lower (case name p of None \<Rightarrow> [] | Some n \<Rightarrow> n) = ''antigravity''
      \<or> sublist ''/antigravity/'' (lower (case exe p of None \<Rightarrow> [] | Some e \<Rightarrow> e))
      \<or> suffix ''/antigravity'' (lower (case exe p of None \<Rightarrow> [] | Some e \<Rightarrow> e)))"

text \<open>
  A decoy: the name holds the application's name without being it, and the path matches
  neither way.
\<close>

definition decoy :: "proc \<Rightarrow> bool" where
  "decoy p =
     (let n = lower (case name p of None \<Rightarrow> [] | Some n \<Rightarrow> n);
          e = lower (case exe p of None \<Rightarrow> [] | Some e \<Rightarrow> e)
      in sublist ''antigravity'' n \<and> n \<noteq> ''antigravity''
         \<and> \<not> sublist ''/antigravity/'' e \<and> \<not> suffix ''/antigravity'' e)"

text \<open>
  The executable path \<open>e\<close> starts with the directory \<open>d\<close>, letter case apart: every path
  below \<open>d\<close> does.
\<close>

definition lies_under :: "string \<Rightarrow> string \<Rightarrow> bool" where
  "lies_under d e = (e \<noteq> [] \<and> prefix (lower d) (lower e))"

subsection \<open>The candidates of a restore, and the effect of a restore on one database\<close>

text \<open>
  The candidate database files in the words of the specification: each primary path, and
  its backup-suffixed sibling when that exists on disk.
\<close>

definition candidates :: "db_env \<Rightarrow> disk \<Rightarrow> string list" where
  "candidates env d =
     concat (map (\<lambda>p. p # (if dbs d (with_suffix_backup env p) \<noteq> None
                            then [with_suffix_backup env p] else []))
       (get_antigravity_db_paths env))"

text \<open>
  What lines 129 to 161 do to one database that exists: whether they succeed, and the
  database they leave.
\<close>

definition restore_db :: "db_env \<Rightarrow> json \<Rightarrow> database \<Rightarrow> bool \<times> database" where
  "restore_db env backup_data db =
     (if connect_ok db then
        (case restore_keys env db backup_data KEYS_TO_BACKUP (table db) of
           None \<Rightarrow> (False, db)
         | Some rows \<Rightarrow> if commit_ok db then (True, db\<lparr>table := rows\<rparr>) else (False, db))
      else (False, db))"

text \<open>The disk after each database of a list has been restored on its own.\<close>

definition restored_disk :: "db_env \<Rightarrow> json \<Rightarrow> disk \<Rightarrow> string list \<Rightarrow> disk" where
  "restored_disk env backup_data d cs =
     d\<lparr>dbs := (\<lambda>p. if p \<in> set cs then map_option (\<lambda>db. snd (restore_db env backup_data db)) (dbs d p)
                    else dbs d p)\<rparr>"

definition succeeds :: "db_env \<Rightarrow> json \<Rightarrow> disk \<Rightarrow> string \<Rightarrow> bool" where
  "succeeds env backup_data d c =
     (case dbs d c of None \<Rightarrow> False | Some db \<Rightarrow> fst (restore_db env backup_data db))"

text \<open>
  The snapshot in the words of the specification: the canonical keys present in the
  database with their values, then the two metadata fields.
\<close>

definition backed_up :: "database \<Rightarrow> (string \<times> json) list" where
  "backed_up db =
     map (\<lambda>k. (k, JString (the (table db k)))) (filter (\<lambda>k. table db k \<noteq> None) KEYS_TO_BACKUP)"

definition snapshot_of :: "db_env \<Rightarrow> string \<Rightarrow> database \<Rightarrow> (string \<times> json) list" where
  "snapshot_of env email db =
     backed_up db @ [(''account_email'', JString email), (''backup_time'', JString (now_isoformat env))]"

section \<open>Scenarios\<close>

text \<open>
  A Linux machine for the examples: the caller has process id 7 and lives in
  \<open>/home/me/Manager\<close>; the processes are the application, a decoy whose name only holds
  the application's name, the caller itself under the application's name, and a binary of
  that name in the caller's directory. The liveness answers are a parameter: alive until
  the forced kill, alive until a given time, or alive whatever happens. Calls take no time
  on this machine.
\<close>

definition proc_app :: proc where
  "proc_app = \<lparr>pid = 42, name = Some ''Antigravity'', exe = Some ''/opt/Antigravity/antigravity''\<rparr>"

definition proc_decoy :: proc where
  "proc_decoy = \<lparr>pid = 43, name = Some ''antigravity-helper'', exe = Some ''/usr/bin/antigravity-helper''\<rparr>"

definition proc_self :: proc where
  "proc_self = \<lparr>pid = 7, name = Some ''antigravity'', exe = Some ''/usr/bin/python3''\<rparr>"

definition proc_bundled :: proc where
  "proc_bundled = \<lparr>pid = 8, name = Some ''antigravity'', exe = Some ''/home/me/Manager/antigravity''\<rparr>"

definition world0 :: world where
  "world0 = \<lparr>clock = 0, trace = [], logged = []\<rparr>"

definition linux_env :: "proc list \<Rightarrow> (world \<Rightarrow> proc \<Rightarrow> psutil_error + bool) \<Rightarrow> os_env" where
  "linux_env ps alive =
     \<lparr>system = Linux, getpid = 7, current_dir = Some ''/home/me/Manager'',
      run_quit = (\<lambda>w. Run_raised), process_iter = (\<lambda>w. ps), is_running = alive,
      terminate = (\<lambda>w p. None), kill = (\<lambda>w p. None), latency = (\<lambda>w. 0)\<rparr>"


definition until_killed :: "world \<Rightarrow> proc \<Rightarrow> psutil_error + bool" where
  "until_killed w p = Inr (kills_in (trace w) = [])"


definition always_alive :: "world \<Rightarrow> proc \<Rightarrow> psutil_error + bool" where
  "always_alive w p = Inr True"

text \<open>
  Two launchers on Linux: one whose URI opener would succeed but which finds no executable
  at all, and one whose URI opener raises while the executable is there.
\<close>

definition no_launcher :: launch_env where
  "no_launcher =
     \<lparr>launch_system = Linux, open_uri = (\<lambda>w. Some True),
      get_antigravity_executable_path = (\<lambda>w. None),
      popen = (\<lambda>w args. Some FileNotFoundError)\<rparr>"

definition broken_uri :: launch_env where
  "broken_uri =
     \<lparr>launch_system = Linux, open_uri = (\<lambda>w. None),
      get_antigravity_executable_path = (\<lambda>w. Some (''/usr/bin/antigravity'', True)),
      popen = (\<lambda>w args. None)\<rparr>"

text \<open>
  Databases and a disk for the examples: the primary database is locked, its sibling is
  fine, a second primary path does not exist; one backup document holds one canonical
  key, another the metadata only. A second disk has a good primary database and a backup
  file that holds the number 5.
\<close>

definition db_good :: database where
  "db_good = \<lparr>table = [''other'' \<mapsto> ''x''], connect_ok = True, select_ok = True,
     insert_ok = True, commit_ok = True\<rparr>"

definition db_locked :: database where
  "db_locked = \<lparr>table = [''other'' \<mapsto> ''x''], connect_ok = False, select_ok = True,
     insert_ok = True, commit_ok = True\<rparr>"

definition db_partial :: database where
  "db_partial = \<lparr>table = [''antigravityAuthStatus'' \<mapsto> ''token'', ''other'' \<mapsto> ''x''],
     connect_ok = True, select_ok = True, insert_ok = True, commit_ok = True\<rparr>"

definition env_db :: db_env where
  "env_db = \<lparr>get_antigravity_db_paths = [''a.vscdb'', ''b.vscdb''],
     with_suffix_backup = (\<lambda>p. p @ ''.backup''), writable = (\<lambda>p. True),
     now_isoformat = ''2026-01-01T00:00:00'', json_dumps = (\<lambda>j. [])\<rparr>"

definition doc_meta :: "(string \<times> json) list" where
  "doc_meta = [(''account_email'', JString ''a@b.com''), (''backup_time'', JString ''2026-01-01T00:00:00'')]"

definition doc_one :: "(string \<times> json) list" where
  "doc_one = (''antigravityAuthStatus'', JString ''token'') # doc_meta"

definition disk1 :: disk where
  "disk1 = \<lparr>files = [''acc.json'' \<mapsto> Json_file (JObject doc_one), ''meta.json'' \<mapsto> Json_file (JObject doc_meta)],
     dbs = [''a.vscdb'' \<mapsto> db_locked, ''a.vscdb.backup'' \<mapsto> db_good]\<rparr>"

definition disk_number :: disk where
  "disk_number = \<lparr>files = [''five.json'' \<mapsto> Json_file (JNumber ''5'')],
     dbs = [''a.vscdb'' \<mapsto> db_good]\<rparr>"

definition disk2 :: disk where
  "disk2 = \<lparr>files = Map.empty, dbs = [''a.vscdb'' \<mapsto> db_partial]\<rparr>"

section \<open>Properties of the process manager\<close>

subsection \<open>Traces\<close>

lemma kills_in_append: "kills_in (xs @ ys) = kills_in xs @ kills_in ys"
  by (induction xs rule: kills_in.induct) simp_all

lemma terminates_in_append: "terminates_in (xs @ ys) = terminates_in xs @ terminates_in ys"
  by (induction xs rule: terminates_in.induct) simp_all

lemma polled_in_append: "polled_in (xs @ ys) = polled_in xs @ polled_in ys"
  by (induction xs rule: polled_in.induct) simp_all

lemma alive_in_append: "alive_in (xs @ ys) = alive_in xs @ alive_in ys"
  by (induction xs rule: alive_in.induct) simp_all

lemma sleeps_in_append: "sleeps_in (xs @ ys) = sleeps_in xs @ sleeps_in ys"
  by (induction xs rule: sleeps_in.induct) simp_all

lemmas in_append = kills_in_append terminates_in_append polled_in_append alive_in_append
  sleeps_in_append

lemma trace_check_platform: "trace (check_platform env w) = trace w"
  by (simp add: check_platform_def write_log_def)

lemma graceful_exit_signals:
  "kills_in (trace (graceful_exit env w)) = kills_in (trace w)"
  "terminates_in (trace (graceful_exit env w)) = terminates_in (trace w)"
  by (simp_all add: graceful_exit_def Let_def os_call_simps sleep_simps write_log_def in_append
      split: run_result.splits)

text \<open>A round of liveness polls adds polls only, one for each process, in order.\<close>

lemma poll_running_trace:
  "poll_running env ps w = (alive, w') \<Longrightarrow>
     \<exists>F. trace w' = trace w @ F \<and> polled_in F = ps \<and> alive_in F = alive
       \<and> kills_in F = [] \<and> terminates_in F = [] \<and> sleeps_in F = []
       \<and> clock w \<le> clock w' \<and> logged w' = logged w"
proof (induction ps arbitrary: w alive w')
  case Nil
  then show ?case by simp
next
  case (Cons p ps)
  let ?r = "is_running env w p"
  let ?w1 = "os_call env (Is_running p ?r) w"
  obtain rest w2 where r: "poll_running env ps ?w1 = (rest, w2)"
    by fastforce
  from Cons.prems r have eq: "w' = w2" "alive = (if ?r = Inr True then p # rest else rest)"
    by (simp_all add: Let_def)
  from Cons.IH [OF r] obtain F where F: "trace w2 = trace ?w1 @ F" "polled_in F = ps"
    "alive_in F = rest" "kills_in F = []" "terminates_in F = []" "sleeps_in F = []"
    "clock ?w1 \<le> clock w2" "logged w2 = logged ?w1"
    by blast
  have "trace w' = trace w @ (Is_running p ?r # F)"
    using F(1) eq(1) by (simp add: os_call_simps)
  moreover have "polled_in (Is_running p ?r # F) = p # ps"
    "alive_in (Is_running p ?r # F) = alive" "kills_in (Is_running p ?r # F) = []"
    "terminates_in (Is_running p ?r # F) = []" "sleeps_in (Is_running p ?r # F) = []"
    using F eq by simp_all
  moreover have "clock w \<le> clock w'"
    using F(7) eq(1) os_call_simps(3) [of w env "Is_running p ?r"] by simp
  moreover have "logged w' = logged w"
    using F(8) eq(1) by (simp add: os_call_simps)
  ultimately show ?case by blast
qed

lemma send_kill_trace:
  "\<exists>K. trace (send_kill env ps w) = trace w @ K \<and> polled_in K = ps \<and> kills_in K = alive_in K
     \<and> terminates_in K = [] \<and> sleeps_in K = []
     \<and> clock w \<le> clock (send_kill env ps w) \<and> logged (send_kill env ps w) = logged w"
proof (induction ps arbitrary: w)
  case Nil
  then show ?case by simp
next
  case (Cons p ps)
  let ?r = "is_running env w p"
  let ?w1 = "os_call env (Is_running p ?r) w"
  have c1: "clock w \<le> clock ?w1"
    by (rule os_call_simps)
  show ?case
  proof (cases "?r = Inr True")
    case True
    let ?s = "kill env ?w1 p"
    let ?w2 = "os_call env (Kill p ?s) ?w1"
    from Cons.IH [of ?w2] obtain K where K: "trace (send_kill env ps ?w2) = trace ?w2 @ K"
      "polled_in K = ps" "kills_in K = alive_in K" "terminates_in K = []" "sleeps_in K = []"
      "clock ?w2 \<le> clock (send_kill env ps ?w2)" "logged (send_kill env ps ?w2) = logged ?w2"
      by blast
    have s: "send_kill env (p # ps) w = send_kill env ps ?w2"
      using True by (simp add: Let_def)
    let ?K = "Is_running p ?r # Kill p ?s # K"
    have "trace (send_kill env (p # ps) w) = trace w @ ?K"
      using K(1) s by (simp add: os_call_simps)
    moreover have "polled_in ?K = p # ps" "kills_in ?K = alive_in ?K" "terminates_in ?K = []"
      "sleeps_in ?K = []"
      using K True by simp_all
    moreover have "clock w \<le> clock (send_kill env (p # ps) w)"
      using K(6) s c1 os_call_simps(3) [of ?w1 env "Kill p ?s"] by simp
    moreover have "logged (send_kill env (p # ps) w) = logged w"
      using K(7) s by (simp add: os_call_simps)
    ultimately show ?thesis by blast
  next
    case False
    from Cons.IH [of ?w1] obtain K where K: "trace (send_kill env ps ?w1) = trace ?w1 @ K"
      "polled_in K = ps" "kills_in K = alive_in K" "terminates_in K = []" "sleeps_in K = []"
      "clock ?w1 \<le> clock (send_kill env ps ?w1)" "logged (send_kill env ps ?w1) = logged ?w1"
      by blast
    have s: "send_kill env (p # ps) w = send_kill env ps ?w1"
      using False by (simp add: Let_def)
    let ?K = "Is_running p ?r # K"
    have "trace (send_kill env (p # ps) w) = trace w @ ?K"
      using K(1) s by (simp add: os_call_simps)
    moreover have "polled_in ?K = p # ps" "kills_in ?K = alive_in ?K" "terminates_in ?K = []"
      "sleeps_in ?K = []"
      using K False by simp_all
    moreover have "clock w \<le> clock (send_kill env (p # ps) w)"
      using K(6) s c1 by simp
    moreover have "logged (send_kill env (p # ps) w) = logged w"
      using K(7) s by (simp add: os_call_simps)
    ultimately show ?thesis by blast
  qed
qed

subsection \<open>The wait loop, one step at a time\<close>

lemma wait_loop_exit_now:
  "\<not> clock w - start_time < timeout \<Longrightarrow>
     wait_loop env start_time timeout targets sr w = Loop_exit sr w"
  by (simp add: wait_loop.simps [of env start_time timeout targets sr w])

lemma wait_loop_done:
  "clock w - start_time < timeout \<Longrightarrow> poll_running env targets w = ([], w1) \<Longrightarrow>
     wait_loop env start_time timeout targets sr w = Return_True w1"
  by (simp add: wait_loop.simps [of env start_time timeout targets sr w])

lemma wait_loop_again:
  "clock w - start_time < timeout \<Longrightarrow> poll_running env targets w = (alive, w1) \<Longrightarrow>
     alive \<noteq> [] \<Longrightarrow>
     wait_loop env start_time timeout targets sr w =
       wait_loop env start_time timeout targets (Some alive) (sleep env (1/2) w1)"
  by (simp add: wait_loop.simps [of env start_time timeout targets sr w])

lemma alive_in_subset: "set (alive_in F) \<subseteq> set (polled_in F)"
  by (induction F rule: alive_in.induct) auto

lemma wait_loop_exit:
  "wait_loop env start_time timeout targets sr0 w = Loop_exit sr w' \<Longrightarrow>
     sr = sr0 \<or> (\<exists>alive. sr = Some alive \<and> alive \<noteq> [] \<and> set alive \<subseteq> set targets)"
proof (induction env start_time timeout targets sr0 w rule: wait_loop.induct)
  case (1 env start_time timeout targets sr0 w)
  show ?case
  proof (cases "clock w - start_time < timeout")
    case False
    with "1.prems" show ?thesis by (simp add: wait_loop_exit_now)
  next
    case True
    obtain alive w1 where p: "poll_running env targets w = (alive, w1)"
      by fastforce
    show ?thesis
    proof (cases "alive = []")
      case nil: True
      with True p "1.prems" show ?thesis
        by (simp add: wait_loop_done)
    next
      case False
      from poll_running_trace [OF p] obtain F where "polled_in F = targets" "alive_in F = alive"
        by blast
      then have "set alive \<subseteq> set targets"
        using alive_in_subset [of F] by simp
      moreover have "wait_loop env start_time timeout targets (Some alive) (sleep env (1/2) w1)
          = Loop_exit sr w'"
        using wait_loop_again [OF True p False] "1.prems" by simp
      ultimately show ?thesis
        using "1.IH" [OF True p [symmetric] False] False
        by auto
    qed
  qed
qed

lemma send_terminate_quiet:
  "kills_in (trace (send_terminate env ps w)) = kills_in (trace w)
   \<and> sleeps_in (trace (send_terminate env ps w)) = sleeps_in (trace w)"
  by (induction ps arbitrary: w) (simp_all add: Let_def os_call_simps in_append)




text \<open>A loop whose body runs leaves \<open>still_running\<close> assigned.\<close>

lemma wait_loop_assigns:
  assumes "clock w - start_time < timeout"
  shows "wait_loop env start_time timeout targets sr0 w \<noteq> Loop_exit None w'"
proof -
  obtain alive w1 where p: "poll_running env targets w = (alive, w1)"
    by fastforce
  show ?thesis
  proof (cases "alive = []")
    case True
    with assms p show ?thesis by (simp add: wait_loop_done)
  next
    case False
    show ?thesis
      using wait_loop_again [OF assms p False, of sr0]
        wait_loop_exit [of env start_time timeout targets "Some alive" "sleep env (1/2) w1" None w']
      by auto
  qed
qed


subsection \<open>The scan\<close>

lemma scan_targets_filter:
  "scan_targets env ps =
     filter (\<lambda>p. pid p \<noteq> getpid env \<and> \<not> in_current_dir env p \<and> is_antigravity (system env) p) ps"
  by (induction ps) simp_all

lemma prefix_lies_under: "strict_prefix d e \<Longrightarrow> lies_under d e"
  by (auto simp: lies_under_def lower_def strict_prefix_def map_mono_prefix)

lemma lies_under_in_current_dir:
  assumes "current_dir env = Some d" and "exe p = Some e" and "lies_under d e"
  shows "in_current_dir env p"
  using assms
  by (auto simp: in_current_dir_def exe_path_def lies_under_def lower_def prefix_imp_sublist)

lemma process_name_lower_eq:
  "process_name_lower p = lower (case name p of None \<Rightarrow> [] | Some n \<Rightarrow> n)"
  by (simp add: process_name_lower_def lower_def split: option.splits)

lemma exe_path_eq: "exe_path p = lower (case exe p of None \<Rightarrow> [] | Some e \<Rightarrow> e)"
  by (simp add: exe_path_def lower_def split: option.splits)

lemma is_antigravity_Linux: "is_antigravity Linux p = platform_c_match p"
  by (simp add: is_antigravity_def platform_c_match_def process_name_lower_eq exe_path_eq)

lemma is_antigravity_running_Linux: "is_antigravity_running Linux p = platform_c_match p"
  by (simp add: is_antigravity_running_def platform_c_match_def process_name_lower_eq exe_path_eq)

lemma is_process_running_loop_ex:
  "is_process_running_loop sys ps = (\<exists>p\<in>set ps. is_antigravity_running sys p)"
  by (induction ps) simp_all

subsection \<open>Facts of the scenarios\<close>

lemma scan_scenario:
  "scan_targets (linux_env [proc_decoy, proc_self, proc_bundled, proc_app] a)
     [proc_decoy, proc_self, proc_bundled, proc_app] = [proc_app]"
  by code_simp

lemma scan_scenario_one: "scan_targets (linux_env [proc_app] a) [proc_app] = [proc_app]"
  by code_simp

lemma scan_scenario_none:
  "scan_targets (linux_env [proc_decoy, proc_self, proc_bundled] a)
     [proc_decoy, proc_self, proc_bundled] = []"
  by code_simp

lemmas run_defs = graceful_exit_def check_platform_def record_event_def os_call_def elapse_def
  sleep_def write_log_def Let_def names_def

lemma linux_env_sel:
  "system (linux_env ps a) = Linux" "getpid (linux_env ps a) = 7"
  "process_iter (linux_env ps a) w = ps" "is_running (linux_env ps a) = a"
  "terminate (linux_env ps a) w p = None" "kill (linux_env ps a) w p = None"
  "latency (linux_env ps a) w = 0"
  by (simp_all add: linux_env_def)

lemma quiet_start:
  "graceful_exit (linux_env ps a) (check_platform (linux_env ps a) w) = w"
  by (simp add: graceful_exit_def check_platform_def linux_env_sel)

lemma send_terminate_one:
  "send_terminate (linux_env ps until_killed) [proc_app] world0 =
     \<lparr>clock = 0, trace = [Is_running proc_app (Inr True), Terminate proc_app None], logged = []\<rparr>"
  by (simp add: linux_env_sel until_killed_def world0_def run_defs)

lemma wait_loop_one_second:
  "wait_loop (linux_env ps until_killed) 0 1 [proc_app] None
     \<lparr>clock = 0, trace = [Is_running proc_app (Inr True), Terminate proc_app None], logged = []\<rparr>
   = Loop_exit (Some [proc_app])
     \<lparr>clock = 1,
      trace = [Is_running proc_app (Inr True), Terminate proc_app None,
               Is_running proc_app (Inr True), Sleep (1/2),
               Is_running proc_app (Inr True), Sleep (1/2)],
      logged = []\<rparr>"
  by (simp add: wait_loop.simps linux_env_sel until_killed_def run_defs)




lemma late_scan:
  "scan_targets (linux_env [proc_app] a)
     (process_iter (linux_env [proc_app] a)
       (graceful_exit (linux_env [proc_app] a) (check_platform (linux_env [proc_app] a) world0)))
   = [proc_app]"
  unfolding quiet_start linux_env_sel by (rule scan_scenario_one)


lemma close_never_exits:
  "close_antigravity (linux_env [proc_app] always_alive) 0 True world0 =
     (False,
      \<lparr>clock = 0, trace = [Is_running proc_app (Inr True), Terminate proc_app None],
       logged = [Error_while_closing UnboundLocalError]\<rparr>)"
proof -
  let ?env = "linux_env [proc_app] always_alive"
  have t: "send_terminate ?env [proc_app] world0 =
      \<lparr>clock = 0, trace = [Is_running proc_app (Inr True), Terminate proc_app None], logged = []\<rparr>"
    by (simp add: linux_env_sel always_alive_def world0_def run_defs)
  have c: "clock (send_terminate ?env [proc_app] world0) = 0"
    unfolding t by simp
  have h: "wait_loop ?env (clock (send_terminate ?env [proc_app] world0)) 0 [proc_app] None
      (send_terminate ?env [proc_app] world0)
    = Loop_exit None
      \<lparr>clock = 0, trace = [Is_running proc_app (Inr True), Terminate proc_app None], logged = []\<rparr>"
    unfolding c unfolding t by (simp add: wait_loop_exit_now)
  show ?thesis
    using late_scan [of always_alive] h
    by (simp add: close_antigravity_def quiet_start Let_def) (simp add: write_log_def)
qed








subsection \<open>The launcher\<close>

lemma uri_attempts_in_append:
  "uri_attempts_in (xs @ ys) = uri_attempts_in xs + uri_attempts_in ys"
  by (induction xs rule: uri_attempts_in.induct) simp_all

lemma run_popen_uri:
  "run_popen env args w = (r, w1) \<Longrightarrow> uri_attempts_in (trace w1) = uri_attempts_in (trace w)"
  by (auto simp: run_popen_def Let_def record_event_def uri_attempts_in_append)

lemma launch_executable_uri:
  "launch_executable env w = (r, w1) \<Longrightarrow> uri_attempts_in (trace w1) = uri_attempts_in (trace w)"
  by (auto simp: launch_executable_def write_log_def
      split: if_splits prod.splits option.splits bool.splits python_exception.splits
      dest: run_popen_uri)

lemma start_without_uri:
  "start_antigravity env False w =
     (case launch_executable env w of
        (Returned b, w1) \<Rightarrow> (b, w1)
      | (Raised e, w1) \<Rightarrow> (False, write_log (Error_starting e) w1))"
  by (simp add: start_antigravity.simps [of env False w] try_start_def Let_def
      split: prod.splits outcome.splits)

lemma start_without_uri_attempts:
  "uri_attempts_in (trace (snd (start_antigravity env False w))) = uri_attempts_in (trace w)"
proof -
  obtain r w1 where l: "launch_executable env w = (r, w1)"
    by fastforce
  from launch_executable_uri [OF l] l show ?thesis
    by (cases r) (simp_all add: start_without_uri write_log_def)
qed

lemma start_no_launcher:
  "start_antigravity no_launcher False world0 =
     (False, \<lparr>clock = 0, trace = [Popen [''antigravity''] (Some FileNotFoundError)],
        logged = [Error_linux_not_found, Error_not_installed]\<rparr>)"
  by (simp add: start_without_uri launch_executable_def run_popen_def no_launcher_def world0_def
      record_event_def write_log_def Let_def)

section \<open>Properties of backup and restore\<close>

lemma restore_keys_rows:
  "restore_keys env db backup_data keys rows =
     (case restore_keys env db backup_data keys Map.empty of
        None \<Rightarrow> None
      | Some u \<Rightarrow> Some (rows ++ u))"
proof (induction keys arbitrary: rows)
  case Nil
  then show ?case by simp
next
  case (Cons key keys)
  have step: "restore_keys env db backup_data keys (rows(key \<mapsto> v)) =
      (case restore_keys env db backup_data keys [key \<mapsto> v] of
         None \<Rightarrow> None
       | Some u \<Rightarrow> Some (rows ++ u))" for v
    by (subst Cons.IH [of "rows(key \<mapsto> v)"], subst Cons.IH [of "[key \<mapsto> v]"])
      (simp split: option.splits)
  show ?case
  proof (cases "json_contains backup_data key")
    case None
    then show ?thesis by simp
  next
    case (Some b)
    show ?thesis
    proof (cases b)
      case False
      with Some Cons.IH [of rows] show ?thesis by simp
    next
      case True
      with Some show ?thesis
        by (cases "json_getitem backup_data key") (simp_all add: step Let_def)
    qed
  qed
qed

lemma restore_keys_flags:
  "insert_ok db' = insert_ok db \<Longrightarrow>
     restore_keys env db' backup_data keys rows = restore_keys env db backup_data keys rows"
  by (induction keys arbitrary: rows) (simp_all add: Let_def split: option.splits bool.splits)

lemma restore_db_idem:
  "restore_db env backup_data (snd (restore_db env backup_data db)) = restore_db env backup_data db"
proof (cases "fst (restore_db env backup_data db)")
  case False
  then have "snd (restore_db env backup_data db) = db"
    by (auto simp: restore_db_def split: option.splits if_splits)
  then show ?thesis by simp
next
  case True
  then obtain u where ok: "connect_ok db" "commit_ok db"
    and u: "restore_keys env db backup_data KEYS_TO_BACKUP Map.empty = Some u"
    and r: "restore_db env backup_data db = (True, db\<lparr>table := table db ++ u\<rparr>)"
    by (subst (asm) restore_db_def, subst (asm) restore_keys_rows)
      (auto simp: restore_db_def restore_keys_rows [of env db backup_data KEYS_TO_BACKUP "table db"]
        split: option.splits if_splits)
  let ?db' = "db\<lparr>table := table db ++ u\<rparr>"
  have f: "restore_keys env ?db' backup_data KEYS_TO_BACKUP Map.empty = Some u"
    using restore_keys_flags [of ?db' db] u by simp
  have "restore_keys env ?db' backup_data KEYS_TO_BACKUP (table ?db') = Some (table ?db' ++ u)"
    by (subst restore_keys_rows) (simp add: f)
  moreover have "table ?db' ++ u = table db ++ u"
    by (auto simp: fun_eq_iff map_add_def split: option.splits)
  ultimately have "restore_db env backup_data ?db' = (True, ?db')"
    using ok by (simp add: restore_db_def)
  with r show ?thesis by simp
qed

lemma restore_single_db_eq:
  "restore_single_db env c backup_data d =
     (case dbs d c of
        None \<Rightarrow> (False, d)
      | Some db \<Rightarrow> (fst (restore_db env backup_data db),
                    d\<lparr>dbs := (dbs d)(c \<mapsto> snd (restore_db env backup_data db))\<rparr>))"
proof (cases "dbs d c")
  case None
  then show ?thesis by (simp add: restore_single_db_def)
next
  case (Some db)
  have same: "d\<lparr>dbs := (dbs d)(c \<mapsto> db)\<rparr> = d"
    using Some by (simp add: fun_upd_idem)
  show ?thesis
    using Some same
    by (simp add: restore_single_db_def get_db_connection_def restore_db_def split: option.splits)
qed

lemma restored_disk_Nil: "restored_disk env backup_data d [] = d"
  by (simp add: restored_disk_def)

lemma dbs_restored_disk_None:
  "dbs (restored_disk env backup_data d cs) p = None \<longleftrightarrow> dbs d p = None"
  by (simp add: restored_disk_def)

lemma restore_single_db_step:
  "restore_single_db env c backup_data (restored_disk env backup_data d cs) =
     (succeeds env backup_data d c, restored_disk env backup_data d (cs @ [c]))"
proof (cases "dbs d c")
  case None
  then have "restored_disk env backup_data d (cs @ [c]) = restored_disk env backup_data d cs"
    by (auto simp: restored_disk_def fun_eq_iff)
  moreover have "dbs (restored_disk env backup_data d cs) c = None"
    using None by (simp add: dbs_restored_disk_None)
  ultimately show ?thesis
    using None by (simp add: restore_single_db_eq succeeds_def)
next
  case (Some db)
  let ?r = "restore_db env backup_data db"
  let ?d = "restored_disk env backup_data d cs"
  obtain db' where db': "dbs ?d c = Some db'" "db' = db \<or> db' = snd ?r"
    using Some by (cases "c \<in> set cs") (auto simp: restored_disk_def)
  then have r': "restore_db env backup_data db' = ?r"
    by (auto simp: restore_db_idem)
  have "?d\<lparr>dbs := (dbs ?d)(c \<mapsto> snd ?r)\<rparr> = restored_disk env backup_data d (cs @ [c])"
    using Some by (auto simp: restored_disk_def fun_eq_iff)
  with db' r' Some show ?thesis
    by (simp add: restore_single_db_eq succeeds_def)
qed

lemma restore_loop_char:
  "restore_loop env backup_data paths n (restored_disk env backup_data d cs) =
     (n + length (filter (succeeds env backup_data d)
            (concat (map (\<lambda>p. p # (if dbs d (with_suffix_backup env p) \<noteq> None
                            then [with_suffix_backup env p] else [])) paths))),
      restored_disk env backup_data d
        (cs @ concat (map (\<lambda>p. p # (if dbs d (with_suffix_backup env p) \<noteq> None
                            then [with_suffix_backup env p] else [])) paths)))"
proof (induction paths arbitrary: n cs)
  case Nil
  then show ?case by simp
next
  case (Cons p paths)
  let ?q = "with_suffix_backup env p"
  let ?d1 = "restored_disk env backup_data d (cs @ [p])"
  show ?case
  proof (cases "dbs d ?q = None")
    case True
    then have "dbs ?d1 ?q = None"
      by (simp add: dbs_restored_disk_None)
    with True Cons.IH [of _ "cs @ [p]"] show ?thesis
      by (simp add: restore_single_db_step Let_def)
  next
    case False
    then have "dbs ?d1 ?q \<noteq> None"
      by (simp add: dbs_restored_disk_None)
    with False Cons.IH [of _ "cs @ [p, ?q]"] show ?thesis
      by (simp add: restore_single_db_step Let_def)
  qed
qed

lemma restore_account_char:
  assumes "files d backup_file_path = Some (Json_file backup_data)"
  shows "restore_account env backup_file_path d =
     (\<exists>c\<in>set (candidates env d). succeeds env backup_data d c,
      restored_disk env backup_data d (candidates env d))"
proof (cases "get_antigravity_db_paths env = []")
  case True
  with assms show ?thesis
    by (simp add: restore_account_def candidates_def restored_disk_Nil)
next
  case False
  have "0 < length (filter P xs) \<longleftrightarrow> (\<exists>x\<in>set xs. P x)" for P and xs :: "string list"
    by (simp add: filter_empty_conv)
  with False assms
    restore_loop_char [of env backup_data "get_antigravity_db_paths env" 0 d "[]"]
  show ?thesis
    by (simp add: restore_account_def candidates_def restored_disk_Nil)
qed

lemma succeeds_single:
  "succeeds env backup_data d c = fst (restore_single_db env c backup_data d)"
  by (simp add: succeeds_def restore_single_db_eq split: option.splits)

lemma restored_disk_single:
  "c \<in> set cs \<Longrightarrow>
     dbs (restored_disk env backup_data d cs) c = dbs (snd (restore_single_db env c backup_data d)) c"
  by (simp add: restored_disk_def restore_single_db_eq split: option.splits)

lemma read_keys_canonical:
  "select_ok db \<Longrightarrow> read_keys db KEYS_TO_BACKUP [] = Some (backed_up db)"
  by (auto simp: KEYS_TO_BACKUP_def backed_up_def split: option.splits)

lemma dict_set_fresh: "k \<notin> set (map fst kvs) \<Longrightarrow> dict_set k v kvs = kvs @ [(k, v)]"
  by (induction kvs) auto

lemma backed_up_keys: "map fst (backed_up db) = filter (\<lambda>k. table db k \<noteq> None) KEYS_TO_BACKUP"
  by (simp add: backed_up_def comp_def)

lemma restore_keys_absent:
  "\<forall>k\<in>set keys. json_contains backup_data k = Some False \<Longrightarrow>
     restore_keys env db backup_data keys rows = Some rows"
  by (induction keys arbitrary: rows) simp_all

lemma restore_db_absent:
  assumes "\<forall>k\<in>set KEYS_TO_BACKUP. json_contains backup_data k = Some False"
  shows "restore_db env backup_data db = (connect_ok db \<and> commit_ok db, db)"
  by (simp add: restore_db_def restore_keys_absent [OF assms])

lemma restored_disk_absent:
  assumes "\<forall>k\<in>set KEYS_TO_BACKUP. json_contains backup_data k = Some False"
  shows "restored_disk env backup_data d cs = d"
proof -
  have "(\<lambda>p. if p \<in> set cs then map_option (\<lambda>db. snd (restore_db env backup_data db)) (dbs d p)
             else dbs d p) = dbs d"
    by (auto simp: fun_eq_iff restore_db_absent [OF assms] option.map_ident)
  then show ?thesis
    by (simp add: restored_disk_def)
qed

lemma restore_db_scalar:
  "json_scalar backup_data \<Longrightarrow> restore_db env backup_data db = (False, db)"
  by (cases backup_data) (simp_all add: json_scalar_def restore_db_def KEYS_TO_BACKUP_def)

lemma restored_disk_scalar:
  assumes "json_scalar backup_data"
  shows "restored_disk env backup_data d cs = d"
proof -
  have "(\<lambda>p. if p \<in> set cs then map_option (\<lambda>db. snd (restore_db env backup_data db)) (dbs d p)
             else dbs d p) = dbs d"
    by (auto simp: fun_eq_iff restore_db_scalar [OF assms] option.map_ident)
  then show ?thesis
    by (simp add: restored_disk_def)
qed

lemma candidates_disk_number: "candidates env_db disk_number = [''a.vscdb'', ''b.vscdb'']"
  by (simp add: candidates_def env_db_def disk_number_def)

lemma candidates_disk1: "candidates env_db disk1 = [''a.vscdb'', ''a.vscdb.backup'', ''b.vscdb'']"
  by (simp add: candidates_def env_db_def disk1_def)

section \<open>The claims\<close>

text \<open>
  The escalation, where the loop's body has run: when the wait loop ends by its condition
  with a list \<open>still_running\<close> that the last round filled, and \<open>force_kill\<close> is set,
  \<open>close_antigravity\<close> goes on with exactly this: it asks each process of
  \<open>still_running\<close> whether it runs and sends the kill to those that answer yes (the
  stretch \<open>K\<close>: the killed are the ones found alive), sleeps 1, asks each process of
  \<open>still_running\<close> again (the stretch \<open>F\<close>), and returns true exactly when none answered
  yes; when some did, the last message logged is the error that names them. The list is not
  empty and holds processes of the termination set only.
\<close>

theorem close_escalation:
  assumes w3: "w3 = send_terminate env targets (graceful_exit env (check_platform env w0))"
    and targets: "targets = scan_targets env (process_iter env (graceful_exit env (check_platform env w0)))"
    and nonempty: "targets \<noteq> []"
    and timed_out: "wait_loop env (clock w3) timeout targets None w3 = Loop_exit (Some still_running) w4"
  shows "still_running \<noteq> [] \<and> set still_running \<subseteq> set targets
    \<and> (\<exists>K F. trace (snd (close_antigravity env timeout True w0)) = trace w4 @ K @ [Sleep 1] @ F
          \<and> polled_in K = still_running \<and> kills_in K = alive_in K \<and> sleeps_in K = []
          \<and> polled_in F = still_running \<and> kills_in F = [] \<and> sleeps_in F = []
          \<and> fst (close_antigravity env timeout True w0) = (alive_in F = [])
          \<and> logged (snd (close_antigravity env timeout True w0)) =
              logged w4 @ Warning_still_running (names still_running)
                # (if alive_in F = [] then [] else [Error_cannot_terminate (names (alive_in F))]))"
proof -
  from wait_loop_exit [OF timed_out] have sr: "still_running \<noteq> []" "set still_running \<subseteq> set targets"
    by auto
  let ?w5 = "write_log (Warning_still_running (names still_running)) w4"
  let ?w6 = "send_kill env still_running ?w5"
  let ?w7 = "sleep env 1 ?w6"
  obtain final_check w8 where p: "poll_running env still_running ?w7 = (final_check, w8)"
    by fastforce
  from send_kill_trace [of env still_running ?w5] obtain K where
    K: "trace ?w6 = trace ?w5 @ K" "polled_in K = still_running" "kills_in K = alive_in K"
      "sleeps_in K = []" "logged ?w6 = logged ?w5"
    by blast
  from poll_running_trace [OF p] obtain F where
    F: "trace w8 = trace ?w7 @ F" "polled_in F = still_running" "alive_in F = final_check"
      "kills_in F = []" "sleeps_in F = []" "logged w8 = logged ?w7"
    by blast
  have c: "close_antigravity env timeout True w0 =
      (if final_check = [] then (True, w8)
       else (False, write_log (Error_cannot_terminate (names final_check)) w8))"
    using w3 targets nonempty timed_out sr(1) p
    by (simp add: close_antigravity_def Let_def)
  have t: "trace (snd (close_antigravity env timeout True w0)) = trace w4 @ K @ [Sleep 1] @ F"
    using c K(1) F(1) by (simp add: write_log_def sleep_simps)
  have l: "logged (snd (close_antigravity env timeout True w0)) =
      logged w4 @ Warning_still_running (names still_running)
        # (if alive_in F = [] then [] else [Error_cannot_terminate (names (alive_in F))])"
    using c K(5) F(3,6) by (simp add: write_log_def sleep_simps)
  have r: "fst (close_antigravity env timeout True w0) = (alive_in F = [])"
    using c F(3) by simp
  from sr t l r K F show ?thesis by blast
qed

theorem close_escalation_witness:
  "wait_loop (linux_env [proc_app] until_killed) 0 1 [proc_app] None
     (send_terminate (linux_env [proc_app] until_killed) [proc_app] world0)
   = Loop_exit (Some [proc_app])
     \<lparr>clock = 1,
      trace = [Is_running proc_app (Inr True), Terminate proc_app None,
               Is_running proc_app (Inr True), Sleep (1/2),
               Is_running proc_app (Inr True), Sleep (1/2)],
      logged = []\<rparr>
   \<and> close_antigravity (linux_env [proc_app] until_killed) 1 True world0 =
      (True,
       \<lparr>clock = 2,
        trace = [Is_running proc_app (Inr True), Terminate proc_app None,
               Is_running proc_app (Inr True), Sleep (1/2),
               Is_running proc_app (Inr True), Sleep (1/2),
               Is_running proc_app (Inr True), Kill proc_app None,
               Sleep 1,
               Is_running proc_app (Inr False)],
        logged = [Warning_still_running [(Some ''Antigravity'', 42)]]\<rparr>)
   \<and> (\<exists>K F. trace (snd (close_antigravity (linux_env [proc_app] until_killed) 1 True world0)) =
          [Is_running proc_app (Inr True), Terminate proc_app None,
           Is_running proc_app (Inr True), Sleep (1/2),
           Is_running proc_app (Inr True), Sleep (1/2)] @ K @ [Sleep 1] @ F
        \<and> polled_in K = [proc_app] \<and> kills_in K = alive_in K \<and> sleeps_in K = []
        \<and> polled_in F = [proc_app] \<and> kills_in F = [] \<and> sleeps_in F = []
        \<and> fst (close_antigravity (linux_env [proc_app] until_killed) 1 True world0) = (alive_in F = []))"
proof -
  let ?env = "linux_env [proc_app] until_killed"
  let ?w3 = "send_terminate ?env [proc_app] world0"
  let ?w4 = "\<lparr>clock = 1,
      trace = [Is_running proc_app (Inr True), Terminate proc_app None,
               Is_running proc_app (Inr True), Sleep (1/2),
               Is_running proc_app (Inr True), Sleep (1/2)],
      logged = []\<rparr>"
  have h1: "?w3 = send_terminate ?env [proc_app] (graceful_exit ?env (check_platform ?env world0))"
    by (simp add: quiet_start)
  have h2: "[proc_app] = scan_targets ?env (process_iter ?env (graceful_exit ?env (check_platform ?env world0)))"
    unfolding quiet_start linux_env_sel by (rule scan_scenario_one [symmetric])
  have h3: "[proc_app] \<noteq> []"
    by simp
  have c: "clock ?w3 = 0"
    unfolding send_terminate_one by simp
  have h4: "wait_loop ?env (clock ?w3) 1 [proc_app] None ?w3 = Loop_exit (Some [proc_app]) ?w4"
    unfolding c unfolding send_terminate_one by (rule wait_loop_one_second)
  have r: "close_antigravity ?env 1 True world0 =
      (True,
       \<lparr>clock = 2,
        trace = [Is_running proc_app (Inr True), Terminate proc_app None,
               Is_running proc_app (Inr True), Sleep (1/2),
               Is_running proc_app (Inr True), Sleep (1/2),
               Is_running proc_app (Inr True), Kill proc_app None,
               Sleep 1,
               Is_running proc_app (Inr False)],
        logged = [Warning_still_running [(Some ''Antigravity'', 42)]]\<rparr>)"
    using h2 [symmetric] h4
    by (simp add: close_antigravity_def quiet_start Let_def)
      (simp add: linux_env_sel until_killed_def run_defs proc_app_def)
  from close_escalation [OF h1 h2 h3 h4] obtain K F where
    KF: "trace (snd (close_antigravity ?env 1 True world0)) = trace ?w4 @ K @ [Sleep 1] @ F"
      "polled_in K = [proc_app]" "kills_in K = alive_in K" "sleeps_in K = []"
      "polled_in F = [proc_app]" "kills_in F = []" "sleeps_in F = []"
      "fst (close_antigravity ?env 1 True world0) = (alive_in F = [])"
    by blast
  have t4: "trace ?w4 = [Is_running proc_app (Inr True), Terminate proc_app None,
           Is_running proc_app (Inr True), Sleep (1/2),
           Is_running proc_app (Inr True), Sleep (1/2)]"
    by simp
  from KF [unfolded t4] h4 [unfolded c] r show ?thesis
    by blast
qed

text \<open>
  C1 fails on the code where the timeout is zero or less. The termination set is not
  empty when the loop gives up, and \<open>force_kill\<close> is set, yet no round of polls ever ran:
  the read of \<open>still_running\<close> at line 199 raises, and \<open>close_antigravity\<close> returns false
  with no forced kill sent to the process, which is still alive.
\<close>

theorem close_escalation_missed:
  "scan_targets (linux_env [proc_app] always_alive)
     (process_iter (linux_env [proc_app] always_alive)
       (graceful_exit (linux_env [proc_app] always_alive)
         (check_platform (linux_env [proc_app] always_alive) world0))) = [proc_app]
   \<and> is_running (linux_env [proc_app] always_alive)
       (snd (close_antigravity (linux_env [proc_app] always_alive) 0 True world0)) proc_app = Inr True
   \<and> close_antigravity (linux_env [proc_app] always_alive) 0 True world0 =
       (False,
        \<lparr>clock = 0, trace = [Is_running proc_app (Inr True), Terminate proc_app None],
         logged = [Error_while_closing UnboundLocalError]\<rparr>)
   \<and> kills_in (trace (snd (close_antigravity (linux_env [proc_app] always_alive) 0 True world0))) = []"
  by (simp add: late_scan close_never_exits) (simp add: linux_env_sel always_alive_def)




text \<open>
  C3. No process of the termination set has the caller's own process id, and none has an
  executable path under the caller's own directory, whatever its name and path match.
\<close>

theorem scan_excludes_self:
  assumes "p \<in> set (scan_targets env ps)"
  shows "pid p \<noteq> getpid env
    \<and> \<not> (\<exists>d e. current_dir env = Some d \<and> exe p = Some e \<and> lies_under d e)"
  using assms lies_under_in_current_dir
  by (auto simp: scan_targets_filter)

theorem scan_excludes_self_witness:
  "proc_app \<in> set (scan_targets (linux_env [] until_killed) [proc_decoy, proc_self, proc_bundled, proc_app])
   \<and> pid proc_app \<noteq> getpid (linux_env [] until_killed)
   \<and> \<not> (\<exists>d e. current_dir (linux_env [] until_killed) = Some d \<and> exe proc_app = Some e \<and> lies_under d e)
   \<and> pid proc_self = getpid (linux_env [] until_killed)
   \<and> is_antigravity Linux proc_self
   \<and> lies_under ''/home/me/Manager'' ''/home/me/Manager/antigravity''
   \<and> is_antigravity Linux proc_bundled"
proof -
  have "scan_targets (linux_env [] until_killed) [proc_decoy, proc_self, proc_bundled, proc_app]
      = [proc_app]"
    by code_simp
  then have m: "proc_app \<in> set (scan_targets (linux_env [] until_killed)
      [proc_decoy, proc_self, proc_bundled, proc_app])"
    by simp
  have "pid proc_self = getpid (linux_env [] until_killed)"
    by code_simp
  moreover have "is_antigravity Linux proc_self"
    by code_simp
  moreover have "lies_under ''/home/me/Manager'' ''/home/me/Manager/antigravity''"
    by code_simp
  moreover have "is_antigravity Linux proc_bundled"
    by code_simp
  ultimately show ?thesis
    using scan_excludes_self [OF m] m by blast
qed

text \<open>
  C4. When the scan finds no target, \<open>close_antigravity\<close> returns true in the world the
  scan left: nothing is called after it, and no process was sent the cooperative signal or
  the forced kill.
\<close>

theorem close_no_targets:
  assumes "scan_targets env (process_iter env (graceful_exit env (check_platform env w0))) = []"
  shows "close_antigravity env timeout force_kill w0 = (True, graceful_exit env (check_platform env w0))
    \<and> terminates_in (trace (snd (close_antigravity env timeout force_kill w0))) = terminates_in (trace w0)
    \<and> kills_in (trace (snd (close_antigravity env timeout force_kill w0))) = kills_in (trace w0)"
  using assms by (simp add: close_antigravity_def Let_def graceful_exit_signals trace_check_platform)

theorem close_no_targets_witness:
  "scan_targets (linux_env [proc_decoy, proc_self, proc_bundled] until_killed)
     (process_iter (linux_env [proc_decoy, proc_self, proc_bundled] until_killed)
       (graceful_exit (linux_env [proc_decoy, proc_self, proc_bundled] until_killed)
         (check_platform (linux_env [proc_decoy, proc_self, proc_bundled] until_killed) world0))) = []
   \<and> close_antigravity (linux_env [proc_decoy, proc_self, proc_bundled] until_killed) 10 True world0
       = (True, world0)"
proof -
  let ?env = "linux_env [proc_decoy, proc_self, proc_bundled] until_killed"
  have g: "graceful_exit ?env (check_platform ?env world0) = world0"
    by (simp add: graceful_exit_def check_platform_def linux_env_def)
  have pi: "process_iter ?env world0 = [proc_decoy, proc_self, proc_bundled]"
    by (simp add: linux_env_def)
  have s: "scan_targets ?env (process_iter ?env (graceful_exit ?env (check_platform ?env world0))) = []"
    unfolding g pi by (rule scan_scenario_none)
  from close_no_targets [OF s, of 10 True] s g show ?thesis
    by simp
qed

text \<open>
  C5. On Linux, \<open>is_process_running\<close> answers true exactly when some process matches the
  rule of the specification, and the termination set of \<open>close_antigravity\<close> is made of
  the processes that match it (the caller and its directory apart); a decoy is not a match
  for either test, and a process whose lowercase name is the application's name is.
\<close>

theorem linux_locator:
  assumes "system env = Linux"
  shows "is_process_running env w = (\<exists>p\<in>set (process_iter env w). platform_c_match p)
    \<and> scan_targets env ps =
        filter (\<lambda>p. pid p \<noteq> getpid env \<and> \<not> in_current_dir env p \<and> platform_c_match p) ps
    \<and> is_antigravity_running (system env) q = platform_c_match q
    \<and> is_antigravity (system env) q = platform_c_match q
    \<and> (decoy q \<longrightarrow> \<not> is_antigravity_running (system env) q \<and> \<not> is_antigravity (system env) q)
    \<and> ((\<exists>n. name q = Some n \<and> lower n = ''antigravity'') \<longrightarrow>
          is_antigravity_running (system env) q \<and> is_antigravity (system env) q)"
proof -
  have a: "is_process_running env w = (\<exists>p\<in>set (process_iter env w). platform_c_match p)"
    using assms
    by (simp add: is_process_running_def is_process_running_loop_ex is_antigravity_running_Linux)
  have b: "scan_targets env ps =
        filter (\<lambda>p. pid p \<noteq> getpid env \<and> \<not> in_current_dir env p \<and> platform_c_match p) ps"
    using assms by (simp add: scan_targets_filter is_antigravity_Linux)
  have c: "decoy q \<longrightarrow> \<not> platform_c_match q"
    by (simp add: decoy_def platform_c_match_def Let_def)
  have d: "(\<exists>n. name q = Some n \<and> lower n = ''antigravity'') \<longrightarrow> platform_c_match q"
    by (auto simp: platform_c_match_def)
  from a b c d assms show ?thesis
    by (simp add: is_antigravity_Linux is_antigravity_running_Linux)
qed

theorem linux_locator_witness:
  "system (linux_env [proc_decoy, proc_app] until_killed) = Linux
   \<and> is_process_running (linux_env [proc_decoy, proc_app] until_killed) world0
   \<and> decoy proc_decoy \<and> \<not> platform_c_match proc_decoy
   \<and> \<not> is_antigravity Linux proc_decoy \<and> \<not> is_antigravity_running Linux proc_decoy
   \<and> platform_c_match proc_app
   \<and> scan_targets (linux_env [proc_decoy, proc_app] until_killed) [proc_decoy, proc_app] = [proc_app]
   \<and> is_antigravity Linux proc_self \<and> is_antigravity_running Linux proc_self"
proof -
  let ?env = "linux_env [proc_decoy, proc_app] until_killed"
  have l: "system ?env = Linux"
    by (simp add: linux_env_def)
  have d: "decoy proc_decoy" "\<not> platform_c_match proc_decoy" "platform_c_match proc_app"
    by code_simp+
  have "lower ''antigravity'' = ''antigravity''"
    by code_simp
  then have d4: "\<exists>n. name proc_self = Some n \<and> lower n = ''antigravity''"
    by (simp add: proc_self_def)
  have i: "in_current_dir ?env proc_app = False" "in_current_dir ?env proc_decoy = False"
    "pid proc_app \<noteq> getpid ?env" "pid proc_decoy \<noteq> getpid ?env"
    "process_iter ?env world0 = [proc_decoy, proc_app]"
    by code_simp+
  note L = linux_locator [OF l, of world0 "[proc_decoy, proc_app]" proc_decoy]
  note M = linux_locator [OF l, of world0 "[proc_decoy, proc_app]" proc_self]
  have r: "is_process_running ?env world0"
    using L [THEN conjunct1] d(3) i(5) by simp
  have s: "scan_targets ?env [proc_decoy, proc_app] = [proc_app]"
    by (subst L [THEN conjunct2, THEN conjunct1]) (simp add: d i)
  have n: "\<not> is_antigravity Linux proc_decoy \<and> \<not> is_antigravity_running Linux proc_decoy"
    using L d(1) l by metis
  have y: "is_antigravity Linux proc_self \<and> is_antigravity_running Linux proc_self"
    using M d4 l by metis
  from l r s n y d show ?thesis
    by blast
qed

text \<open>
  C6, as amended. \<open>start_antigravity\<close> never retries with the URI forced on. Called with
  \<open>use_uri\<close> false it is the launch by executable path and nothing else: a launch that
  fails gives false, with no retry and no call of the URI opener. The one retry goes the
  other way: called with \<open>use_uri\<close> true, when the attempt raises, it logs the error
  and calls itself once with \<open>use_uri\<close> false; so a call with \<open>use_uri\<close> true calls the
  URI opener exactly once.
\<close>

theorem start_retry:
  "start_antigravity env False w =
     (case launch_executable env w of
        (Returned b, w1) \<Rightarrow> (b, w1)
      | (Raised e, w1) \<Rightarrow> (False, write_log (Error_starting e) w1))
   \<and> uri_attempts_in (trace (snd (start_antigravity env False w))) = uri_attempts_in (trace w)
   \<and> (\<forall>e w1. try_start env True w = (Raised e, w1) \<longrightarrow>
         start_antigravity env True w =
           start_antigravity env False (write_log Warning_uri_failed (write_log (Error_starting e) w1)))
   \<and> (\<forall>b w1. try_start env True w = (Returned b, w1) \<longrightarrow> start_antigravity env True w = (b, w1))
   \<and> uri_attempts_in (trace (snd (start_antigravity env True w))) = Suc (uri_attempts_in (trace w))"
proof -
  have c: "\<forall>e w1. try_start env True w = (Raised e, w1) \<longrightarrow>
         start_antigravity env True w =
           start_antigravity env False (write_log Warning_uri_failed (write_log (Error_starting e) w1))"
    by (simp add: start_antigravity.simps [of env True w] Let_def)
  have d: "\<forall>b w1. try_start env True w = (Returned b, w1) \<longrightarrow> start_antigravity env True w = (b, w1)"
    by (simp add: start_antigravity.simps [of env True w])
  obtain r w1 where t: "try_start env True w = (r, w1)"
    by fastforce
  have u: "uri_attempts_in (trace w1) = Suc (uri_attempts_in (trace w))"
  proof (cases "open_uri env w")
    case None
    with t show ?thesis
      by (auto simp: try_start_def Let_def record_event_def uri_attempts_in_append)
  next
    case (Some ok)
    show ?thesis
    proof (cases ok)
      case True
      with Some t show ?thesis
        by (auto simp: try_start_def Let_def record_event_def uri_attempts_in_append)
    next
      case False
      with Some t have "launch_executable env
          (write_log Warning_uri_failed (record_event (Open_uri (Some False)) w)) = (r, w1)"
        by (simp add: try_start_def Let_def)
      from launch_executable_uri [OF this] show ?thesis
        by (simp add: write_log_def record_event_def uri_attempts_in_append)
    qed
  qed
  have e: "uri_attempts_in (trace (snd (start_antigravity env True w))) = Suc (uri_attempts_in (trace w))"
  proof (cases r)
    case (Returned b)
    with d t u show ?thesis by simp
  next
    case (Raised ex)
    with c t have "start_antigravity env True w =
        start_antigravity env False (write_log Warning_uri_failed (write_log (Error_starting ex) w1))"
      by simp
    with u show ?thesis
      by (simp add: start_without_uri_attempts write_log_def)
  qed
  from c d e start_without_uri [of env w] start_without_uri_attempts [of env w] show ?thesis
    by blast
qed

text \<open>
  C6, as stated, fails: on Linux with no executable to be found, a call with \<open>use_uri\<close>
  false returns false after the one \<open>Popen\<close>; the URI opener, which would have
  succeeded, is never called.
\<close>

theorem start_retry_counterexample:
  "start_antigravity no_launcher False world0 =
     (False, \<lparr>clock = 0, trace = [Popen [''antigravity''] (Some FileNotFoundError)],
        logged = [Error_linux_not_found, Error_not_installed]\<rparr>)
   \<and> uri_attempts_in (trace (snd (start_antigravity no_launcher False world0))) = 0
   \<and> open_uri no_launcher (snd (start_antigravity no_launcher False world0)) = Some True"
  by (simp add: start_no_launcher) (simp add: no_launcher_def)

theorem start_retry_witness:
  "try_start broken_uri True world0 =
     (Raised Other_exception, \<lparr>clock = 0, trace = [Open_uri None], logged = []\<rparr>)
   \<and> start_antigravity broken_uri True world0 =
     (True, \<lparr>clock = 0, trace = [Open_uri None, Popen [''/usr/bin/antigravity''] None],
        logged = [Error_starting Other_exception, Warning_uri_failed]\<rparr>)
   \<and> uri_attempts_in (trace (snd (start_antigravity no_launcher False world0))) = 0"
proof -
  have t: "try_start broken_uri True world0 =
     (Raised Other_exception, \<lparr>clock = 0, trace = [Open_uri None], logged = []\<rparr>)"
    by (simp add: try_start_def broken_uri_def world0_def record_event_def)
  have l: "start_antigravity broken_uri False
      (write_log Warning_uri_failed (write_log (Error_starting Other_exception)
        \<lparr>clock = 0, trace = [Open_uri None], logged = []\<rparr>)) =
     (True, \<lparr>clock = 0, trace = [Open_uri None, Popen [''/usr/bin/antigravity''] None],
        logged = [Error_starting Other_exception, Warning_uri_failed]\<rparr>)"
    by (simp add: start_without_uri launch_executable_def run_popen_def broken_uri_def
        record_event_def write_log_def Let_def)
  note S = start_retry [of broken_uri world0]
  note N = start_retry [of no_launcher world0]
  from S t have "start_antigravity broken_uri True world0 =
      start_antigravity broken_uri False
        (write_log Warning_uri_failed (write_log (Error_starting Other_exception)
          \<lparr>clock = 0, trace = [Open_uri None], logged = []\<rparr>))"
    by blast
  moreover have "uri_attempts_in (trace world0) = 0"
    by (simp add: world0_def)
  with N [THEN conjunct2, THEN conjunct1]
  have "uri_attempts_in (trace (snd (start_antigravity no_launcher False world0))) = 0"
    by simp
  ultimately show ?thesis
    using t l by simp
qed

text \<open>
  C7. When the backup file parses, \<open>restore_account\<close> returns true exactly when
  \<open>_restore_single_db\<close> succeeds on at least one candidate (a primary path, or its
  sibling when it exists). No candidate is kept from its attempt by another's failure: in
  the disk \<open>restore_account\<close> leaves, each candidate's database is what restoring that
  candidate alone leaves, and every other database is untouched. When the file is missing
  or does not parse, the result is false and the disk is unchanged.
\<close>

theorem restore_success_iff:
  "(files d backup_file_path = Some (Json_file backup_data) \<longrightarrow>
      (fst (restore_account env backup_file_path d) \<longleftrightarrow>
        (\<exists>c\<in>set (candidates env d). fst (restore_single_db env c backup_data d)))
      \<and> (\<forall>c\<in>set (candidates env d).
            dbs (snd (restore_account env backup_file_path d)) c =
            dbs (snd (restore_single_db env c backup_data d)) c)
      \<and> (\<forall>c. c \<notin> set (candidates env d) \<longrightarrow>
            dbs (snd (restore_account env backup_file_path d)) c = dbs d c))
   \<and> ((\<forall>doc. files d backup_file_path \<noteq> Some (Json_file doc)) \<longrightarrow>
        restore_account env backup_file_path d = (False, d))"
proof -
  have "restore_account env backup_file_path d = (False, d)"
    if "\<forall>doc. files d backup_file_path \<noteq> Some (Json_file doc)"
    using that by (auto simp: restore_account_def split: option.splits backup_file.splits)
  moreover have "dbs (restored_disk env backup_data d cs) c = dbs d c" if "c \<notin> set cs" for c cs
    using that by (simp add: restored_disk_def)
  ultimately show ?thesis
    by (auto simp: restore_account_char succeeds_single restored_disk_single)
qed

theorem restore_success_iff_witness:
  "files disk1 ''acc.json'' = Some (Json_file (JObject doc_one))
   \<and> candidates env_db disk1 = [''a.vscdb'', ''a.vscdb.backup'', ''b.vscdb'']
   \<and> fst (restore_single_db env_db ''a.vscdb'' (JObject doc_one) disk1) = False
   \<and> fst (restore_single_db env_db ''a.vscdb.backup'' (JObject doc_one) disk1)
   \<and> fst (restore_single_db env_db ''b.vscdb'' (JObject doc_one) disk1) = False
   \<and> fst (restore_account env_db ''acc.json'' disk1)
   \<and> dbs (snd (restore_account env_db ''acc.json'' disk1)) ''a.vscdb.backup'' =
       Some (db_good\<lparr>table := [''other'' \<mapsto> ''x'', ''antigravityAuthStatus'' \<mapsto> ''token'']\<rparr>)"
proof -
  have f: "files disk1 ''acc.json'' = Some (Json_file (JObject doc_one))"
    by (simp add: disk1_def)
  have a: "restore_single_db env_db ''a.vscdb'' (JObject doc_one) disk1 = (False, disk1)"
    by (simp add: restore_single_db_def get_db_connection_def disk1_def db_locked_def)
  have b: "restore_single_db env_db ''b.vscdb'' (JObject doc_one) disk1 = (False, disk1)"
    by (simp add: restore_single_db_def get_db_connection_def disk1_def)
  have g: "restore_keys env_db db_good (JObject doc_one) KEYS_TO_BACKUP (table db_good) =
      Some [''other'' \<mapsto> ''x'', ''antigravityAuthStatus'' \<mapsto> ''token'']"
    by (simp add: KEYS_TO_BACKUP_def doc_one_def doc_meta_def db_good_def)
  have c: "restore_single_db env_db ''a.vscdb.backup'' (JObject doc_one) disk1 =
      (True, disk1\<lparr>dbs := (dbs disk1)(''a.vscdb.backup'' \<mapsto>
         db_good\<lparr>table := [''other'' \<mapsto> ''x'', ''antigravityAuthStatus'' \<mapsto> ''token'']\<rparr>)\<rparr>)"
    using g by (simp add: restore_single_db_def get_db_connection_def disk1_def)
      (simp add: db_good_def)
  note T = restore_success_iff [of disk1 "''acc.json''" "JObject doc_one" env_db, THEN conjunct1, rule_format, OF f]
  have r: "fst (restore_account env_db ''acc.json'' disk1)"
    using T [THEN conjunct1] c by (simp add: candidates_disk1)
  have "dbs (snd (restore_account env_db ''acc.json'' disk1)) ''a.vscdb.backup'' =
      dbs (snd (restore_single_db env_db ''a.vscdb.backup'' (JObject doc_one) disk1)) ''a.vscdb.backup''"
    using T [THEN conjunct2, THEN conjunct1] by (simp add: candidates_disk1)
  then have t: "dbs (snd (restore_account env_db ''acc.json'' disk1)) ''a.vscdb.backup'' =
       Some (db_good\<lparr>table := [''other'' \<mapsto> ''x'', ''antigravityAuthStatus'' \<mapsto> ''token'']\<rparr>)"
    by (simp add: c)
  from f a b c r t candidates_disk1 show ?thesis
    by simp
qed

text \<open>
  C8. When \<open>backup_account\<close> succeeds (a first path whose database exists, opens and
  answers the queries, and a destination that can be written), the document it writes is
  the snapshot: its keys are the keys of \<open>KEYS_TO_BACKUP\<close> that have a row in the database,
  in the order of the list and each with the value of its row, then \<open>account_email\<close> and
  \<open>backup_time\<close>; a key without a row is left out, and no other key is in the document.
\<close>

theorem backup_document_keys:
  assumes "get_antigravity_db_paths env = db_path # rest" and "dbs d db_path = Some db"
    and "connect_ok db" and "select_ok db" and "writable env backup_file_path"
  shows "backup_account env email backup_file_path d =
      (True, d\<lparr>files := (files d)(backup_file_path \<mapsto> Json_file (JObject (snapshot_of env email db)))\<rparr>)
    \<and> map fst (snapshot_of env email db) =
        filter (\<lambda>k. table db k \<noteq> None) KEYS_TO_BACKUP @ [''account_email'', ''backup_time'']
    \<and> set (map fst (snapshot_of env email db)) =
        {k \<in> set KEYS_TO_BACKUP. k \<in> dom (table db)} \<union> {''account_email'', ''backup_time''}
    \<and> (\<forall>k\<in>set KEYS_TO_BACKUP. \<forall>v. table db k = Some v \<longrightarrow>
          map_of (snapshot_of env email db) k = Some (JString v))"
proof -
  have fresh1: "''account_email'' \<notin> set (map fst (backed_up db))"
    unfolding backed_up_keys by (auto simp: KEYS_TO_BACKUP_def)
  have fresh2: "''backup_time'' \<notin> set (map fst (backed_up db @ [(''account_email'', JString email)]))"
    using backed_up_keys [of db] by (auto simp: KEYS_TO_BACKUP_def)
  have doc: "dict_set ''backup_time'' (JString (now_isoformat env))
      (dict_set ''account_email'' (JString email) (backed_up db)) = snapshot_of env email db"
    by (simp only: dict_set_fresh [OF fresh1] dict_set_fresh [OF fresh2] snapshot_of_def append_assoc
        append_Cons append_Nil)
  have a: "backup_account env email backup_file_path d =
      (True, d\<lparr>files := (files d)(backup_file_path \<mapsto> Json_file (JObject (snapshot_of env email db)))\<rparr>)"
    using assms
    by (simp add: backup_account_def get_db_connection_def read_keys_canonical Let_def doc)
  have b: "map fst (snapshot_of env email db) =
        filter (\<lambda>k. table db k \<noteq> None) KEYS_TO_BACKUP @ [''account_email'', ''backup_time'']"
    by (simp add: snapshot_of_def backed_up_keys)
  have c: "set (map fst (snapshot_of env email db)) =
        {k \<in> set KEYS_TO_BACKUP. k \<in> dom (table db)} \<union> {''account_email'', ''backup_time''}"
    unfolding b by auto
  have d: "\<forall>k\<in>set KEYS_TO_BACKUP. \<forall>v. table db k = Some v \<longrightarrow>
          map_of (snapshot_of env email db) k = Some (JString v)"
    by (auto simp: snapshot_of_def backed_up_def KEYS_TO_BACKUP_def)
  from a b c d show ?thesis
    by blast
qed

theorem backup_document_keys_witness:
  "backup_account env_db ''a@b.com'' ''out.json'' disk2 =
     (True, disk2\<lparr>files := (files disk2)(''out.json'' \<mapsto> Json_file (JObject doc_one))\<rparr>)
   \<and> table db_partial ''jetskiStateSync.agentManagerInitState'' = None
   \<and> map fst doc_one = [''antigravityAuthStatus'', ''account_email'', ''backup_time'']"
proof -
  have h: "get_antigravity_db_paths env_db = ''a.vscdb'' # [''b.vscdb'']"
    "dbs disk2 ''a.vscdb'' = Some db_partial" "connect_ok db_partial" "select_ok db_partial"
    "writable env_db ''out.json''"
    by (simp_all add: env_db_def disk2_def db_partial_def)
  have s: "snapshot_of env_db ''a@b.com'' db_partial = doc_one"
    by (simp add: snapshot_of_def backed_up_def KEYS_TO_BACKUP_def db_partial_def env_db_def
        doc_one_def doc_meta_def)
  have n: "table db_partial ''jetskiStateSync.agentManagerInitState'' = None"
    by (simp add: db_partial_def)
  have m: "map fst doc_one = [''antigravityAuthStatus'', ''account_email'', ''backup_time'']"
    by (simp add: doc_one_def doc_meta_def)
  from backup_document_keys [OF h, of "''a@b.com''", THEN conjunct1] s n m show ?thesis
    by simp
qed

text \<open>
  C9. With a timeout of zero or less and a termination set that is not empty, the wait
  loop ends at once, its body never run and \<open>still_running\<close> never assigned; the read of
  \<open>still_running\<close> raises, the handler of the operation logs the error, and
  \<open>close_antigravity\<close> returns false in the world the cooperative signals left, with no
  forced kill sent, whatever \<open>force_kill\<close> says.
\<close>

theorem close_nonpositive_timeout:
  assumes "scan_targets env (process_iter env (graceful_exit env (check_platform env w0))) = targets"
    and "targets \<noteq> []" and "timeout \<le> 0"
  shows "wait_loop env (clock (send_terminate env targets (graceful_exit env (check_platform env w0))))
           timeout targets None (send_terminate env targets (graceful_exit env (check_platform env w0)))
         = Loop_exit None (send_terminate env targets (graceful_exit env (check_platform env w0)))
    \<and> close_antigravity env timeout force_kill w0
         = (False, write_log (Error_while_closing UnboundLocalError)
              (send_terminate env targets (graceful_exit env (check_platform env w0))))
    \<and> kills_in (trace (snd (close_antigravity env timeout force_kill w0))) = kills_in (trace w0)"
  using assms
  by (simp add: close_antigravity_def Let_def wait_loop_exit_now write_log_def send_terminate_quiet
      graceful_exit_signals trace_check_platform)

theorem close_nonpositive_timeout_witness:
  "scan_targets (linux_env [proc_app] until_killed)
     (process_iter (linux_env [proc_app] until_killed)
       (graceful_exit (linux_env [proc_app] until_killed)
         (check_platform (linux_env [proc_app] until_killed) world0))) = [proc_app]
   \<and> close_antigravity (linux_env [proc_app] until_killed) 0 True world0 =
       (False, \<lparr>clock = 0, trace = [Is_running proc_app (Inr True), Terminate proc_app None],
          logged = [Error_while_closing UnboundLocalError]\<rparr>)
   \<and> kills_in (trace (snd (close_antigravity (linux_env [proc_app] until_killed) 0 True world0))) = []"
proof -
  let ?env = "linux_env [proc_app] until_killed"
  have s: "scan_targets ?env (process_iter ?env (graceful_exit ?env (check_platform ?env world0)))
      = [proc_app]"
    unfolding quiet_start linux_env_sel by (rule scan_scenario_one)
  have t: "send_terminate ?env [proc_app] world0 =
      \<lparr>clock = 0, trace = [Is_running proc_app (Inr True), Terminate proc_app None], logged = []\<rparr>"
    by (simp add: linux_env_sel until_killed_def world0_def run_defs)
  from close_nonpositive_timeout [OF s, of 0 True] s t show ?thesis
    by (simp add: quiet_start write_log_def world0_def)
qed

text \<open>
  C10, as amended. Let the backup document be one on which \<open>key in backup_data\<close> is
  defined (a mapping, an array or a string) and which holds none of the canonical keys,
  and let a candidate database exist, open and commit. Then \<open>restore_account\<close> returns
  true and leaves the disk as it was: that database counts as updated although no row was
  written. When the document is a number, a boolean or \<open>null\<close>, the test raises for
  every database: \<open>restore_account\<close> returns false, and the disk is as it was.
\<close>

theorem restore_without_keys:
  assumes "files d backup_file_path = Some (Json_file backup_data)"
  shows "((\<forall>k\<in>set KEYS_TO_BACKUP. json_contains backup_data k = Some False)
          \<and> c \<in> set (candidates env d) \<and> dbs d c = Some db \<and> connect_ok db \<and> commit_ok db \<longrightarrow>
            restore_account env backup_file_path d = (True, d)
            \<and> restore_single_db env c backup_data d = (True, d))
    \<and> (json_scalar backup_data \<longrightarrow> restore_account env backup_file_path d = (False, d))"
proof -
  have first: "restore_account env backup_file_path d = (True, d)
      \<and> restore_single_db env c backup_data d = (True, d)"
    if none: "\<forall>k\<in>set KEYS_TO_BACKUP. json_contains backup_data k = Some False"
      and c: "c \<in> set (candidates env d)" and db: "dbs d c = Some db"
      and ok: "connect_ok db" "commit_ok db"
  proof -
    have "succeeds env backup_data d c"
      using db ok by (simp add: succeeds_def restore_db_absent [OF none])
    with c have "\<exists>c\<in>set (candidates env d). succeeds env backup_data d c"
      by blast
    then have a: "restore_account env backup_file_path d = (True, d)"
      by (simp add: restore_account_char [OF assms] restored_disk_absent [OF none])
    have "d\<lparr>dbs := (dbs d)(c \<mapsto> db)\<rparr> = d"
      using db by (simp add: fun_upd_idem)
    then have b: "restore_single_db env c backup_data d = (True, d)"
      using db ok by (simp add: restore_single_db_eq restore_db_absent [OF none])
    from a b show ?thesis
      by simp
  qed
  have second: "restore_account env backup_file_path d = (False, d)" if scalar: "json_scalar backup_data"
  proof -
    have "\<not> succeeds env backup_data d c'" for c'
      by (simp add: succeeds_def restore_db_scalar [OF scalar] split: option.splits)
    then show ?thesis
      by (simp add: restore_account_char [OF assms] restored_disk_scalar [OF scalar])
  qed
  from first second show ?thesis
    by blast
qed

text \<open>
  C10, as stated, fails: a backup file that holds the number 5 parses and holds no
  canonical key, the primary database exists, opens and commits, and yet
  \<open>restore_account\<close> returns false: \<open>key in backup_data\<close> raises at line 139.
\<close>

theorem restore_without_keys_counterexample:
  "files disk_number ''five.json'' = Some (Json_file (JNumber ''5''))
   \<and> ''a.vscdb'' \<in> set (candidates env_db disk_number)
   \<and> dbs disk_number ''a.vscdb'' = Some db_good
   \<and> connect_ok db_good \<and> commit_ok db_good
   \<and> restore_account env_db ''five.json'' disk_number = (False, disk_number)"
proof -
  have r: "restore_single_db env_db p (JNumber ''5'') disk_number = (False, disk_number)" for p
    by (simp add: restore_single_db_def get_db_connection_def KEYS_TO_BACKUP_def
        split: option.splits)
  have e: "dbs disk_number ''a.vscdb.backup'' = None" "dbs disk_number ''b.vscdb.backup'' = None"
    by (simp_all add: disk_number_def)
  have v: "with_suffix_backup env_db p = p @ ''.backup''"
    "get_antigravity_db_paths env_db = [''a.vscdb'', ''b.vscdb'']" for p
    by (simp_all add: env_db_def)
  have f: "files disk_number ''five.json'' = Some (Json_file (JNumber ''5''))"
    by (simp add: disk_number_def)
  have "restore_loop env_db (JNumber ''5'') [''a.vscdb'', ''b.vscdb''] 0 disk_number =
      (0, disk_number)"
    by (simp add: r e v Let_def)
  then have "restore_account env_db ''five.json'' disk_number = (False, disk_number)"
    by (simp add: restore_account_def f v)
  then show ?thesis
    by (simp add: candidates_disk_number) (simp add: disk_number_def db_good_def)
qed

theorem restore_without_keys_witness:
  "files disk1 ''meta.json'' = Some (Json_file (JObject doc_meta))
   \<and> ''a.vscdb.backup'' \<in> set (candidates env_db disk1)
   \<and> dbs disk1 ''a.vscdb.backup'' = Some db_good
   \<and> restore_account env_db ''meta.json'' disk1 = (True, disk1)
   \<and> json_scalar (JNumber ''5'')
   \<and> restore_account env_db ''five.json'' disk_number = (False, disk_number)"
proof -
  have c: "''a.vscdb.backup'' \<in> set (candidates env_db disk1)"
    by (simp add: candidates_disk1)
  have h: "files disk1 ''meta.json'' = Some (Json_file (JObject doc_meta))"
    "\<forall>k\<in>set KEYS_TO_BACKUP. json_contains (JObject doc_meta) k = Some False"
    "dbs disk1 ''a.vscdb.backup'' = Some db_good" "connect_ok db_good" "commit_ok db_good"
    by (simp_all add: disk1_def KEYS_TO_BACKUP_def doc_meta_def db_good_def)
  have f: "files disk_number ''five.json'' = Some (Json_file (JNumber ''5''))"
    by (simp add: disk_number_def)
  have s: "json_scalar (JNumber ''5'')"
    by (simp add: json_scalar_def)
  from restore_without_keys [OF h(1), of "''a.vscdb.backup''" env_db db_good, THEN conjunct1]
    h(2-5) c
  have a: "restore_account env_db ''meta.json'' disk1 = (True, disk1)"
    by blast
  from restore_without_keys [OF f, of _ env_db, THEN conjunct2] s
  have b: "restore_account env_db ''five.json'' disk_number = (False, disk_number)"
    by blast
  from h(1,3) c a s b show ?thesis
    by simp
qed

end
